theory Spec2Isabelle
  imports Main
begin

section \<open>Shared data model\<close>

text \<open>
  The repository holds two scripts of the same shape. The Hacker News script keeps the table
  \<^verbatim>\<open>news_data (id INTEGER PRIMARY KEY AUTOINCREMENT, storyId INTEGER UNIQUE, title, url,
  commentSummary, retrieved INTEGER DEFAULT 0)\<close>; the Reddit script keeps
  \<^verbatim>\<open>processed_posts (id TEXT PRIMARY KEY, title, url, summary, retrieved INTEGER DEFAULT 0)\<close>,
  a rowid table. One row type serves both: \<open>rowid\<close> is the column \<^verbatim>\<open>id\<close> of
  \<^verbatim>\<open>news_data\<close> and the implicit \<^verbatim>\<open>ROWID\<close> of \<^verbatim>\<open>processed_posts\<close>;
  \<open>source_id\<close> is \<^verbatim>\<open>storyId\<close>, respectively the text column \<^verbatim>\<open>id\<close>;
  \<open>summary\<close> is \<^verbatim>\<open>commentSummary\<close>, respectively \<^verbatim>\<open>summary\<close>.
  A table is the list of its rows, in no particular order.
\<close>

datatype error = RequestFailed | SQLITE_CONSTRAINT

text \<open>Neither script installs a handler for rejections, and Node since version 15 ends the
  process when a promise is rejected and nothing handles the rejection.\<close>

datatype process = Running | Exited error

record 'k row =
  rowid :: nat
  source_id :: 'k
  title :: string
  url :: string
  summary :: string
  retrieved :: nat

text \<open>
  The state a run works on: the table, and the effects performed so far, oldest first.
  A crash leaves the table as it was after some prefix of the effects.
\<close>

record ('k, 'e) world =
  tbl :: "'k row list"
  trace :: "'e list"

definition emit :: "'e \<Rightarrow> ('k, 'e) world \<Rightarrow> ('k, 'e) world" where
  "emit ev w = w\<lparr>trace := trace w @ [ev]\<rparr>"

text \<open>
  Neither script deletes rows, so both rowid policies (AUTOINCREMENT, and the largest rowid
  plus one) give a new row a rowid above every rowid of the table.
\<close>

fun max_rowid :: "'k row list \<Rightarrow> nat" where
  "max_rowid [] = 0"
| "max_rowid (r # rs) = max (rowid r) (max_rowid rs)"

definition next_rowid :: "'k row list \<Rightarrow> nat" where
  "next_rowid rows = Suc (max_rowid rows)"

text \<open>\<^verbatim>\<open>INSERT INTO t (id-column, title, url, summary) VALUES (?, ?, ?, ?)\<close> under the
  uniqueness constraint of the id column; \<open>retrieved\<close> takes its default 0.\<close>

definition sql_insert ::
  "'k \<Rightarrow> string \<Rightarrow> string \<Rightarrow> string \<Rightarrow> 'k row list \<Rightarrow> error + 'k row list" where
  "sql_insert k t u s rows =
     (if k \<in> set (map source_id rows) then Inl SQLITE_CONSTRAINT
      else Inr (rows @ [\<lparr>rowid = next_rowid rows, source_id = k, title = t, url = u,
                         summary = s, retrieved = 0\<rparr>]))"

text \<open>\<^verbatim>\<open>SELECT ... WHERE retrieved = 0 ORDER BY id ASC LIMIT 1\<close> (Hacker News) and
  \<^verbatim>\<open>... ORDER BY ROWID ASC LIMIT 1\<close> (Reddit).\<close>

definition unretrieved :: "'k row list \<Rightarrow> 'k row list" where
  "unretrieved rows = sort_key rowid (filter (\<lambda>r. retrieved r = 0) rows)"

definition select_oldest :: "'k row list \<Rightarrow> 'k row option" where
  "select_oldest rows = (case unretrieved rows of [] \<Rightarrow> None | r # _ \<Rightarrow> Some r)"

text \<open>The external services both scripts call: the chat completion endpoint (system and
  user message to the content of the first choice) and the Bluesky agent.\<close>

record services =
  chat :: "string \<Rightarrow> string \<Rightarrow> error + string"
  login :: "error + unit"
  post :: "string \<Rightarrow> error + unit"

definition newspaper :: string where
  "newspaper = [CHR 0xF0, CHR 0x9F, CHR 0x93, CHR 0xB0]"

definition speech_balloon :: string where
  "speech_balloon = [CHR 0xF0, CHR 0x9F, CHR 0x92, CHR 0xAC]"

definition CR :: char where "CR = CHR 0x0D"
definition LF :: char where "LF = CHR 0x0A"

definition digit :: "nat \<Rightarrow> char" where
  "digit d = ''0123456789'' ! d"

fun string_of_nat :: "nat \<Rightarrow> string" where
  "string_of_nat n =
     (if n < 10 then [digit n] else string_of_nat (n div 10) @ [digit (n mod 10)])"

declare string_of_nat.simps [simp del]

fun join :: "string \<Rightarrow> string list \<Rightarrow> string" where
  "join sep [] = []"
| "join sep [x] = x"
| "join sep (x # y # ys) = x @ sep @ join sep (y # ys)"

section \<open>The Hacker News script\<close>

text \<open>An item of the Hacker News API. A field the JSON lacks is \<open>None\<close>; the title is read
  only from stories.\<close>

record item =
  item_title :: string
  item_url :: "string option"
  kids :: "nat list option"
  item_text :: "string option"

datatype hn_event =
    HnGetTopStories
  | HnGetItem nat
  | HnSummarize string
  | HnInsert nat
  | HnUpdate nat
  | HnLogin
  | HnPost string

type_synonym hn_world = "(nat, hn_event) world"

text \<open>
  \<open>topstories\<close> and \<open>item_json\<close> are the responses of the Hacker News API (\<open>Inr None\<close> is the
  JSON \<^verbatim>\<open>null\<close>; \<open>Inl\<close> is a request that throws). The cron job starts \<^verbatim>\<open>main\<close> every
  five minutes whether or not the previous run has ended, so two runs may interleave at
  their \<^verbatim>\<open>await\<close>s: \<open>overlap\<close> is what another run writes to the table while this run
  awaits the network calls of one candidate, between its check \<^verbatim>\<open>isStoryProcessed\<close> and
  its insert. A run that is alone has the identity there.

  The statements of the database are taken to succeed, except that an insert fails when it
  violates the uniqueness of \<^verbatim>\<open>storyId\<close>. \<^verbatim>\<open>initializeDatabase\<close> creates the table if it
  does not exist and changes no row; the table is taken to exist. The script's \<^verbatim>\<open>main\<close> is
  \<open>hn_main\<close> here, as the Reddit script has a \<^verbatim>\<open>main\<close> of its own.
\<close>

record hn_env = services +
  topstories :: "error + nat list"
  item_json :: "nat \<Rightarrow> error + item option"
  overlap :: "nat \<Rightarrow> nat row list \<Rightarrow> nat row list"

definition fetchTopStories :: "hn_env \<Rightarrow> hn_world \<Rightarrow> (error + nat list) \<times> hn_world" where
  "fetchTopStories env w =
     ((case topstories env of Inl e \<Rightarrow> Inl e | Inr ids \<Rightarrow> Inr (take 15 ids)),
      emit HnGetTopStories w)"

definition fetchStoryDetails ::
  "hn_env \<Rightarrow> nat \<Rightarrow> hn_world \<Rightarrow> (error + item option) \<times> hn_world" where
  "fetchStoryDetails env storyId w = (item_json env storyId, emit (HnGetItem storyId) w)"

definition hn_system :: string where
  "hn_system = ''You are an assistant summarizing comments from Hacker News as a teet with a snarky but informed tone. The summary should be in the style of an executive summary. Make sure to include a basic sentiment analysis of the link and include the general vibe of the comments. Use an emojii to express the general feelings about the news story in general. Limit this summary to less than 125 characters or letters''"

definition hn_user :: "string \<Rightarrow> string" where
  "hn_user comments = ''Summarize the following comments in less than 125 characters: '' @ comments"

definition summarizeComments ::
  "hn_env \<Rightarrow> string \<Rightarrow> hn_world \<Rightarrow> (error + string) \<times> hn_world" where
  "summarizeComments env comments w =
     (chat env hn_system (hn_user comments), emit (HnSummarize comments) w)"

definition isStoryProcessed :: "nat \<Rightarrow> hn_world \<Rightarrow> bool" where
  "isStoryProcessed storyId w = (storyId \<in> set (map source_id (tbl w)))"

definition saveStoryToDatabase ::
  "nat \<Rightarrow> string \<Rightarrow> string \<Rightarrow> string \<Rightarrow> hn_world \<Rightarrow> (error + unit) \<times> hn_world" where
  "saveStoryToDatabase storyId t u commentSummary w =
     (case sql_insert storyId t u commentSummary (tbl w) of
        Inl e \<Rightarrow> (Inl e, emit (HnInsert storyId) w)
      | Inr rows \<Rightarrow> (Inr (), emit (HnInsert storyId) (w\<lparr>tbl := rows\<rparr>)))"

text \<open>\<^verbatim>\<open>UPDATE news_data SET retrieved = 1 WHERE id = ?\<close>, run in the callback of the
  select before the promise of \<^verbatim>\<open>getTopNewsItem\<close> resolves with the row.\<close>

definition mark_rowid :: "nat \<Rightarrow> 'k row list \<Rightarrow> 'k row list" where
  "mark_rowid i rows = map (\<lambda>r. if rowid r = i then r\<lparr>retrieved := 1\<rparr> else r) rows"

definition getTopNewsItem :: "hn_world \<Rightarrow> nat row option \<times> hn_world" where
  "getTopNewsItem w =
     (case select_oldest (tbl w) of
        Some r \<Rightarrow> (Some r, emit (HnUpdate (rowid r)) (w\<lparr>tbl := mark_rowid (rowid r) (tbl w)\<rparr>))
      | None \<Rightarrow> (None, w))"

definition hn_message :: "nat row \<Rightarrow> string" where
  "hn_message topNewsItem =
     newspaper @ '' '' @ title topNewsItem @ [CR, LF, CR, LF]
     @ speech_balloon @ '' '' @ summary topNewsItem
     @ [CR, LF, CR, LF] @ ''https://news.ycombinator.com/item?id=''
     @ string_of_nat (source_id topNewsItem)"

definition testRetrieval :: "hn_env \<Rightarrow> hn_world \<Rightarrow> (error + unit) \<times> hn_world" where
  "testRetrieval env w =
     (case getTopNewsItem w of
        (Some topNewsItem, w1) \<Rightarrow>
          (case login env of
             Inl e \<Rightarrow> (Inl e, emit HnLogin w1)
           | Inr _ \<Rightarrow>
               (case post env (hn_message topNewsItem) of
                  Inl e \<Rightarrow> (Inl e, emit (HnPost (hn_message topNewsItem)) (emit HnLogin w1))
                | Inr _ \<Rightarrow> (Inr (), emit (HnPost (hn_message topNewsItem)) (emit HnLogin w1))))
      | (None, w1) \<Rightarrow> (Inr (), w1))"

text \<open>The inner loop of \<^verbatim>\<open>main\<close> over \<^verbatim>\<open>story.kids.slice(0, 25)\<close>: a child is pushed
  when \<^verbatim>\<open>commentDetails && commentDetails.text\<close> is truthy, that is when the item is not
  \<^verbatim>\<open>null\<close> and has a non-empty text.\<close>

fun comment_loop ::
  "hn_env \<Rightarrow> nat list \<Rightarrow> string list \<Rightarrow> hn_world \<Rightarrow> (error + string list) \<times> hn_world" where
  "comment_loop env [] comments w = (Inr comments, w)"
| "comment_loop env (commentId # rest) comments w =
     (case fetchStoryDetails env commentId w of
        (Inl e, w1) \<Rightarrow> (Inl e, w1)
      | (Inr None, w1) \<Rightarrow> comment_loop env rest comments w1
      | (Inr (Some commentDetails), w1) \<Rightarrow>
          (case item_text commentDetails of
             None \<Rightarrow> comment_loop env rest comments w1
           | Some t \<Rightarrow>
               if t = [] then comment_loop env rest comments w1
               else comment_loop env rest (comments @ [t]) w1))"

text \<open>The body of the outer loop of \<^verbatim>\<open>main\<close>, for one \<^verbatim>\<open>storyId\<close>. The writes of an
  overlapping run take effect after the check and before the insert; nothing in between
  reads the table.\<close>

definition process_story :: "hn_env \<Rightarrow> nat \<Rightarrow> hn_world \<Rightarrow> (error + unit) \<times> hn_world" where
  "process_story env storyId w =
     (if isStoryProcessed storyId w then (Inr (), w)
      else
        (case fetchStoryDetails env storyId (w\<lparr>tbl := overlap env storyId (tbl w)\<rparr>) of
           (Inl e, w1) \<Rightarrow> (Inl e, w1)
         | (Inr None, w1) \<Rightarrow> (Inr (), w1)
         | (Inr (Some story), w1) \<Rightarrow>
             (case kids story of
                None \<Rightarrow> (Inr (), w1)
              | Some ks \<Rightarrow>
                  (case item_url story of
                     None \<Rightarrow> (Inr (), w1)
                   | Some u \<Rightarrow>
                       if u = [] then (Inr (), w1)
                       else
                         (case comment_loop env (take 25 ks) [] w1 of
                            (Inl e, w2) \<Rightarrow> (Inl e, w2)
                          | (Inr comments, w2) \<Rightarrow>
                              (case summarizeComments env (join [LF] comments) w2 of
                                 (Inl e, w3) \<Rightarrow> (Inl e, w3)
                               | (Inr commentSummary, w3) \<Rightarrow>
                                   saveStoryToDatabase storyId (item_title story) u
                                     commentSummary w3))))))"

fun story_loop :: "hn_env \<Rightarrow> nat list \<Rightarrow> hn_world \<Rightarrow> (error + unit) \<times> hn_world" where
  "story_loop env [] w = (Inr (), w)"
| "story_loop env (storyId # rest) w =
     (case process_story env storyId w of
        (Inl e, w1) \<Rightarrow> (Inl e, w1)
      | (Inr _, w1) \<Rightarrow> story_loop env rest w1)"

definition hn_main :: "hn_env \<Rightarrow> hn_world \<Rightarrow> (error + unit) \<times> hn_world" where
  "hn_main env w =
     (case fetchTopStories env w of
        (Inl e, w1) \<Rightarrow> (Inl e, w1)
      | (Inr storyIds, w1) \<Rightarrow>
          (case story_loop env storyIds w1 of
             (Inl e, w2) \<Rightarrow> (Inl e, w2)
           | (Inr _, w2) \<Rightarrow> testRetrieval env w2))"

text \<open>The last lines of the script: an async function awaits \<^verbatim>\<open>main()\<close> with no handler
  and then creates and starts the cron job. When \<^verbatim>\<open>main\<close> rejects, that function's own
  promise is rejected and nothing handles it: the process ends and \<^verbatim>\<open>job.start()\<close> is not
  reached.\<close>

definition hn_startup :: "hn_env \<Rightarrow> hn_world \<Rightarrow> process \<times> hn_world" where
  "hn_startup env w =
     (case hn_main env w of
        (Inl e, w1) \<Rightarrow> (Exited e, w1)
      | (Inr _, w1) \<Rightarrow> (Running, w1))"

section \<open>The Reddit script\<close>

text \<open>A child of the listing \<^verbatim>\<open>postsResponse.data.data.children\<close>, and the object
  \<^verbatim>\<open>fetchRecentPosts\<close> maps it to.\<close>

record child =
  child_id :: string
  child_title :: string
  permalink :: string
  child_selftext :: string

record post =
  post_id :: string
  post_title :: string
  post_url :: string
  selftext :: string

datatype rd_event =
    RdGetPosts
  | RdSummarizeTitle string
  | RdSummarizeDiscussion string
  | RdInsert string
  | RdConsoleError error
  | RdUnhandledRejection error
  | RdLogin
  | RdPost string
  | RdUpdate string

type_synonym rd_world = "(string, rd_event) world"

text \<open>\<open>children\<close> is the listing the Reddit API answers with, after the token exchange
  (\<open>Inl\<close> when either request throws). \<open>arrivals\<close> is the order in which the answers
  that the pending callbacks of \<^verbatim>\<open>processPosts\<close> wait for arrive: each entry is the position
  in the listing of the post whose callback is resumed next. The selects of a listing are
  local and are answered before any summarizer call returns. As in the other script, the
  statements of the database are taken to succeed, except that an insert fails when it
  violates the primary key.\<close>

record rd_env = services +
  children :: "error + child list"
  arrivals :: "nat list"

definition fetchRecentPosts :: "rd_env \<Rightarrow> rd_world \<Rightarrow> (error + post list) \<times> rd_world" where
  "fetchRecentPosts env w =
     ((case children env of
         Inl e \<Rightarrow> Inl e
       | Inr cs \<Rightarrow>
           Inr (map (\<lambda>c. \<lparr>post_id = child_id c, post_title = child_title c,
                            post_url = ''https://www.reddit.com'' @ permalink c,
                            selftext = child_selftext c\<rparr>) cs)),
      emit RdGetPosts w)"

definition title_system :: string where
  "title_system = ''You are an assistant summarizing the title of a Reddit Post with a snarky but informed tone. Limit this summary to less than 80 characters or letters.''"

definition discussion_system :: string where
  "discussion_system = ''You are an assistant summarizing comments from Reddit Posts as a tweet with a snarky but informed tone. The summary should be in the style of an executive summary. Make sure to include a basic sentiment analysis of the post and include the general vibe of the comments. Use an emojii to express the general feelings about the post in general. Limit this summary to less than 125 characters or letters.''"

definition title_user :: "string \<Rightarrow> string" where
  "title_user txt = ''Summarize the following post title in less than 80 characters: '' @ txt"

definition discussion_user :: "string \<Rightarrow> string" where
  "discussion_user txt =
     ''Summarize the following post discussion in less than 125 characters: '' @ txt"

definition summarizeTitle ::
  "rd_env \<Rightarrow> string \<Rightarrow> rd_world \<Rightarrow> (error + string) \<times> rd_world" where
  "summarizeTitle env txt w =
     (chat env title_system (title_user txt), emit (RdSummarizeTitle txt) w)"

definition summarizeDiscussion ::
  "rd_env \<Rightarrow> string \<Rightarrow> rd_world \<Rightarrow> (error + string) \<times> rd_world" where
  "summarizeDiscussion env txt w =
     (chat env discussion_system (discussion_user txt), emit (RdSummarizeDiscussion txt) w)"

text \<open>\<^verbatim>\<open>postToBluesky\<close>: login, then post; the \<^verbatim>\<open>catch\<close> logs any failure and returns.\<close>

definition postToBluesky :: "rd_env \<Rightarrow> string \<Rightarrow> rd_world \<Rightarrow> rd_world" where
  "postToBluesky env content w =
     (case login env of
        Inl e \<Rightarrow> emit (RdConsoleError e) (emit RdLogin w)
      | Inr _ \<Rightarrow>
          (case post env content of
             Inl e \<Rightarrow> emit (RdConsoleError e) (emit (RdPost content) (emit RdLogin w))
           | Inr _ \<Rightarrow> emit (RdPost content) (emit RdLogin w)))"

definition rd_message :: "string row \<Rightarrow> string" where
  "rd_message r =
     newspaper @ '' '' @ title r @ [LF, LF] @ speech_balloon @ '' '' @ summary r
     @ [LF, LF] @ ''https://www.reddit.com/r/LosAngeles/comments/'' @ source_id r"

text \<open>\<^verbatim>\<open>UPDATE processed_posts SET retrieved = 1 WHERE id = ?\<close>, which
  \<^verbatim>\<open>retrieveAndPost\<close> runs after \<^verbatim>\<open>await postToBluesky(content)\<close> has returned.\<close>

definition mark_source :: "'k \<Rightarrow> 'k row list \<Rightarrow> 'k row list" where
  "mark_source k rows = map (\<lambda>r. if source_id r = k then r\<lparr>retrieved := 1\<rparr> else r) rows"

definition mark_retrieved :: "string row \<Rightarrow> rd_world \<Rightarrow> rd_world" where
  "mark_retrieved r w = emit (RdUpdate (source_id r)) (w\<lparr>tbl := mark_source (source_id r) (tbl w)\<rparr>)"

definition retrieveAndPost :: "rd_env \<Rightarrow> rd_world \<Rightarrow> rd_world" where
  "retrieveAndPost env w =
     (case select_oldest (tbl w) of
        Some r \<Rightarrow> mark_retrieved r (postToBluesky env (rd_message r) w)
      | None \<Rightarrow> w)"

text \<open>
  The callback that \<^verbatim>\<open>processPosts\<close> gives to \<^verbatim>\<open>db.get\<close> is an async function: it runs
  to its next \<^verbatim>\<open>await\<close>, and is resumed when the awaited answer arrives. A task is such a
  callback between two of these moments: the select has answered (\<open>found\<close> tells whether
  it returned a row) and the callback has not run yet; it has called \<^verbatim>\<open>summarizeTitle\<close>,
  respectively \<^verbatim>\<open>summarizeDiscussion\<close>, and waits for the answer the task holds; it has
  issued the insert, which has not run yet; or it has ended.
\<close>

datatype task =
    Selected post bool
  | AwaitTitle post "error + string"
  | AwaitDiscussion post "error + string"
  | AwaitInsert post string
  | Done

text \<open>The insert runs; its callback logs a failure.\<close>

definition insert_completes :: "post \<Rightarrow> string \<Rightarrow> rd_world \<Rightarrow> rd_world" where
  "insert_completes p s w =
     (case sql_insert (post_id p) (post_title p) (post_url p) s (tbl w) of
        Inl e \<Rightarrow> emit (RdConsoleError e) w
      | Inr rows \<Rightarrow> w\<lparr>tbl := rows\<rparr>)"

text \<open>The insert is issued and runs.\<close>

definition insert_post :: "post \<Rightarrow> string \<Rightarrow> rd_world \<Rightarrow> rd_world" where
  "insert_post p s w = insert_completes p s (emit (RdInsert (post_id p)) w)"

text \<open>One step of a callback, from the arrival of the answer it waits for to its next
  \<^verbatim>\<open>await\<close>. \<open>Inl\<close>: the awaited call has failed, the \<^verbatim>\<open>await\<close> throws and the
  callback's promise is rejected.\<close>

fun resume :: "rd_env \<Rightarrow> task \<Rightarrow> rd_world \<Rightarrow> (error + task) \<times> rd_world" where
  "resume env (Selected p found) w =
     (if found then (Inr Done, w)
      else (case summarizeTitle env (post_title p) w of (r, w1) \<Rightarrow> (Inr (AwaitTitle p r), w1)))"
| "resume env (AwaitTitle p (Inl e)) w = (Inl e, w)"
| "resume env (AwaitTitle p (Inr t)) w =
     (case summarizeDiscussion env (if selftext p = [] then post_title p else selftext p) w of
        (r, w1) \<Rightarrow> (Inr (AwaitDiscussion p r), w1))"
| "resume env (AwaitDiscussion p (Inl e)) w = (Inl e, w)"
| "resume env (AwaitDiscussion p (Inr s)) w =
     (Inr (AwaitInsert p s), emit (RdInsert (post_id p)) w)"
| "resume env (AwaitInsert p s) w = (Inr Done, insert_completes p s w)"
| "resume env Done w = (Inr Done, w)"

text \<open>
  The pending callbacks are resumed in the order the answers arrive. Nothing in the script
  handles the rejection of a callback's promise, so the first rejection ends the process:
  the callbacks still pending are never resumed.
\<close>

fun event_loop ::
  "rd_env \<Rightarrow> nat list \<Rightarrow> task list \<Rightarrow> rd_world \<Rightarrow> process \<times> task list \<times> rd_world" where
  "event_loop env [] ts w = (Running, ts, w)"
| "event_loop env (i # rest) ts w =
     (if i < length ts then
        (case resume env (ts ! i) w of
           (Inl e, w1) \<Rightarrow> (Exited e, ts[i := Done], emit (RdUnhandledRejection e) w1)
         | (Inr t, w1) \<Rightarrow> event_loop env rest (ts[i := t]) w1)
      else event_loop env rest ts w)"

text \<open>One callback, resumed until it has ended, with no other callback in between.\<close>

definition post_callback :: "rd_env \<Rightarrow> post \<Rightarrow> bool \<Rightarrow> rd_world \<Rightarrow> process \<times> rd_world" where
  "post_callback env p found w =
     (case event_loop env [0, 0, 0, 0] [Selected p found] w of (pr, ts, w1) \<Rightarrow> (pr, w1))"

text \<open>
  \<^verbatim>\<open>processPosts\<close> awaits the listing and gives every post's select to the database;
  it resolves with the callbacks pending. An insert is issued only after two summarizer
  calls have answered, so every select of a listing reads the table as it is when the
  listing arrives.
\<close>

definition processPosts :: "rd_env \<Rightarrow> rd_world \<Rightarrow> (error + task list) \<times> rd_world" where
  "processPosts env w =
     (case fetchRecentPosts env w of
        (Inl e, w1) \<Rightarrow> (Inl e, w1)
      | (Inr posts, w1) \<Rightarrow>
          (Inr (map (\<lambda>p. Selected p (post_id p \<in> set (map source_id (tbl w1)))) posts), w1))"

text \<open>The ingestion of one tick: \<^verbatim>\<open>processPosts\<close>, then its callbacks as their answers
  arrive. \<open>Inl\<close>: the listing failed and \<^verbatim>\<open>processPosts\<close> rejected.\<close>

definition ingest_posts :: "rd_env \<Rightarrow> rd_world \<Rightarrow> (error + process) \<times> rd_world" where
  "ingest_posts env w =
     (case processPosts env w of
        (Inl e, w1) \<Rightarrow> (Inl e, w1)
      | (Inr ts, w1) \<Rightarrow>
          (case event_loop env (arrivals env) ts w1 of (pr, ts', w2) \<Rightarrow> (Inr pr, w2)))"

section \<open>The discussion text, as specified\<close>

text \<open>
  The text a child entry contributes to the aggregate, following the specification: its
  text when the entry was fetched and has text, nothing otherwise. The aggregate is the
  contributions of the entries in the order the source gave them.
\<close>

definition entry_text :: "hn_env \<Rightarrow> nat \<Rightarrow> string list" where
  "entry_text env commentId =
     (case item_json env commentId of
        Inr (Some d) \<Rightarrow> (case item_text d of Some t \<Rightarrow> if t = [] then [] else [t] | None \<Rightarrow> [])
      | _ \<Rightarrow> [])"

definition discussion_texts :: "hn_env \<Rightarrow> nat list \<Rightarrow> string list" where
  "discussion_texts env ids = concat (map (entry_text env) ids)"

section \<open>Sample inputs\<close>

text \<open>Concrete tables, listings and service behaviours, on which the theorems below are
  instantiated.\<close>

definition hn_old :: hn_world where
  "hn_old = \<lparr>tbl = [\<lparr>rowid = 1, source_id = 90, title = ''old'', url = ''http://o'',
                     summary = ''s'', retrieved = 1\<rparr>], trace = []\<rparr>"

definition hn_abc :: hn_world where
  "hn_abc = snd (saveStoryToDatabase 103 ''C'' ''http://c'' ''sc''
             (snd (saveStoryToDatabase 102 ''B'' ''http://b'' ''sb''
               (snd (saveStoryToDatabase 101 ''A'' ''http://a'' ''sa'' hn_old)))))"

definition rd_old :: rd_world where
  "rd_old = \<lparr>tbl = [\<lparr>rowid = 1, source_id = ''p0'', title = ''old'', url = ''http://o'',
                     summary = ''s'', retrieved = 1\<rparr>], trace = []\<rparr>"

definition post_a :: post where
  "post_a = \<lparr>post_id = ''pa'', post_title = ''A'', post_url = ''https://www.reddit.com/r/losangeles/comments/pa/a/'',
              selftext = ''body a''\<rparr>"

definition post_b :: post where
  "post_b = \<lparr>post_id = ''pb'', post_title = ''B'', post_url = ''https://www.reddit.com/r/losangeles/comments/pb/b/'',
              selftext = []\<rparr>"

definition post_c :: post where
  "post_c = \<lparr>post_id = ''pc'', post_title = ''C'', post_url = ''https://www.reddit.com/r/losangeles/comments/pc/c/'',
              selftext = ''body c''\<rparr>"

definition rd_abc :: rd_world where
  "rd_abc = insert_post post_c ''sc'' (insert_post post_b ''sb'' (insert_post post_a ''sa'' rd_old))"

definition row_101 :: "nat row" where
  "row_101 = \<lparr>rowid = 2, source_id = 101, title = ''A'', url = ''http://a'', summary = ''sa'',
               retrieved = 0\<rparr>"

definition row_pa :: "string row" where
  "row_pa = \<lparr>rowid = 2, source_id = ''pa'', title = ''A'',
              url = ''https://www.reddit.com/r/losangeles/comments/pa/a/'', summary = ''sa'',
              retrieved = 0\<rparr>"

definition rd_env_ok :: rd_env where
  "rd_env_ok = \<lparr>chat = (\<lambda>sys usr. if sys = title_system then Inr ''snark'' else Inr ''fine''),
                 login = Inr (), post = (\<lambda>m. Inr ()), children = Inr [], arrivals = []\<rparr>"

definition hn_env_ok :: hn_env where
  "hn_env_ok = \<lparr>chat = (\<lambda>sys usr. Inr ''fine''), login = Inr (), post = (\<lambda>m. Inr ()),
                 topstories = Inr [], item_json = (\<lambda>i. Inr None),
                 overlap = (\<lambda>storyId rows. rows)\<rparr>"

text \<open>A Hacker News front page of three stories: story 7 has four child entries (one
  missing, one without text), story 8 has no URL, story 9 has an empty list of children.\<close>

definition hn_items :: "nat \<Rightarrow> item option" where
  "hn_items i =
     (if i = 7 then Some \<lparr>item_title = ''Story 7'', item_url = Some ''http://s7'',
                          kids = Some [71, 72, 73, 74], item_text = None\<rparr>
      else if i = 71 then Some \<lparr>item_title = [], item_url = None, kids = None,
                                 item_text = Some ''great''\<rparr>
      else if i = 73 then Some \<lparr>item_title = [], item_url = None, kids = None,
                                 item_text = None\<rparr>
      else if i = 74 then Some \<lparr>item_title = [], item_url = None, kids = None,
                                 item_text = Some ''meh''\<rparr>
      else if i = 8 then Some \<lparr>item_title = ''Story 8'', item_url = None,
                                kids = Some [81], item_text = Some ''ask''\<rparr>
      else if i = 9 then Some \<lparr>item_title = ''Story 9'', item_url = Some ''http://s9'',
                                kids = Some [], item_text = None\<rparr>
      else None)"

definition hn_env_page :: hn_env where
  "hn_env_page = \<lparr>chat = (\<lambda>sys usr. Inr ''fine''), login = Inr (), post = (\<lambda>m. Inr ()),
                   topstories = Inr [7, 8, 9], item_json = (\<lambda>i. Inr (hn_items i)),
                   overlap = (\<lambda>storyId rows. rows)\<rparr>"

text \<open>The same page when the request for entry 72 fails.\<close>

definition hn_env_throw :: hn_env where
  "hn_env_throw = hn_env_page\<lparr>item_json := (\<lambda>i. if i = 72 then Inl RequestFailed
                                                   else Inr (hn_items i))\<rparr>"

definition hn_env_throw2 :: hn_env where
  "hn_env_throw2 = hn_env_throw\<lparr>topstories := Inr [9, 7, 8]\<rparr>"

text \<open>The same page when another run stores story 7 while this run awaits the network
  calls for it.\<close>

definition hn_env_race :: hn_env where
  "hn_env_race = hn_env_page\<lparr>overlap := (\<lambda>storyId rows.
       if storyId = 7
       then rows @ [\<lparr>rowid = next_rowid rows, source_id = 7, title = ''Story 7'',
                      url = ''http://s7'', summary = ''other run'', retrieved = 0\<rparr>]
       else rows)\<rparr>"

text \<open>Reddit listings: two posts; the first post listed twice, then the second; and the
  listing of two when the summarizer fails on the title of the first post. The answers
  arrive in turn, one for each pending callback, round after round; in \<open>rd_env_dup_swap\<close>
  the selects are answered in turn, and then the callback listed second gets all its
  answers before the callback listed first gets any, the third callback coming last.\<close>

definition child_a :: child where
  "child_a = \<lparr>child_id = ''pa'', child_title = ''A'',
               permalink = ''/r/losangeles/comments/pa/a/'', child_selftext = ''body a''\<rparr>"

definition child_b :: child where
  "child_b = \<lparr>child_id = ''pb'', child_title = ''B'',
               permalink = ''/r/losangeles/comments/pb/b/'', child_selftext = []\<rparr>"

definition rd_env_two :: rd_env where
  "rd_env_two = rd_env_ok\<lparr>children := Inr [child_a, child_b],
                            arrivals := [0, 1, 0, 1, 0, 1, 0, 1]\<rparr>"

definition rd_env_dup :: rd_env where
  "rd_env_dup = rd_env_ok\<lparr>children := Inr [child_a, child_a, child_b],
                            arrivals := [0, 1, 2, 0, 1, 2, 0, 1, 2, 0, 1, 2]\<rparr>"

definition rd_env_dup_swap :: rd_env where
  "rd_env_dup_swap = rd_env_dup\<lparr>arrivals := [0, 1, 2, 1, 1, 1, 0, 0, 0, 2, 2, 2]\<rparr>"

definition rd_env_fail :: rd_env where
  "rd_env_fail = rd_env_two\<lparr>chat := (\<lambda>sys usr. if usr = title_user ''A'' then Inl RequestFailed
                                                  else Inr ''fine'')\<rparr>"

text \<open>The same failure when it arrives late: both selects are answered, then all the
  answers for the second post arrive, and only then the failure of the call for the first.\<close>

definition rd_env_fail_late :: rd_env where
  "rd_env_fail_late = rd_env_fail\<lparr>arrivals := [0, 1, 1, 1, 1, 0]\<rparr>"

text \<open>Two ticks that overlap: the script is started shortly before a five-minute boundary,
  so the first tick of the cron job lists post \<^verbatim>\<open>pa\<close> again while the callback of
  the startup tick has called \<^verbatim>\<open>summarizeTitle\<close> and still waits for the answer. From
  then on the answers arrive in turn.\<close>

definition rd_env_one :: rd_env where
  "rd_env_one = rd_env_ok\<lparr>children := Inr [child_a]\<rparr>"

definition rd_overlap :: "process \<times> task list \<times> rd_world" where
  "rd_overlap =
     (case processPosts rd_env_one rd_old of
        (Inl e, w1) \<Rightarrow> (Running, [], w1)
      | (Inr ts1, w1) \<Rightarrow>
          (case event_loop rd_env_one [0] ts1 w1 of
             (pr, ts1', w2) \<Rightarrow>
               (case processPosts rd_env_one w2 of
                  (Inl e, w3) \<Rightarrow> (pr, ts1', w3)
                | (Inr ts2, w3) \<Rightarrow>
                    event_loop rd_env_one [1, 0, 1, 0, 1, 0, 1] (ts1' @ ts2) w3)))"

text \<open>A table in which the record of the first post is still unpublished.\<close>

definition rd_pending :: rd_world where
  "rd_pending = insert_post post_a ''sa'' rd_old"

section \<open>Observations\<close>

text \<open>The number of rows that go from unpublished (\<open>retrieved = 0\<close>) to published between
  two states of a table whose rows correspond by position.\<close>

definition transitions :: "'k row list \<Rightarrow> 'k row list \<Rightarrow> nat" where
  "transitions before after =
     length (filter (\<lambda>(r, r'). retrieved r = 0 \<and> retrieved r' \<noteq> 0) (zip before after))"

section \<open>The table as a queue\<close>


lemma rowid_less_next: "r \<in> set rows \<Longrightarrow> rowid r < next_rowid rows"
  unfolding next_rowid_def by (induction rows) auto

lemma insort_key_last:
  "\<forall>y\<in>set ys. f y \<le> f x \<Longrightarrow> f a \<le> f x \<Longrightarrow> insort_key f a (ys @ [x]) = insort_key f a ys @ [x]"
  by (induction ys) auto

lemma sort_key_snoc:
  "\<forall>y\<in>set xs. f y \<le> f x \<Longrightarrow> sort_key f (xs @ [x]) = sort_key f xs @ [x]"
proof (induction xs)
  case Nil
  then show ?case by simp
next
  case (Cons a xs)
  then have "sort_key f (xs @ [x]) = sort_key f xs @ [x]" by simp
  moreover have "\<forall>y\<in>set (sort_key f xs). f y \<le> f x" using Cons.prems by simp
  moreover have "f a \<le> f x" using Cons.prems by simp
  ultimately show ?case by (simp add: insort_key_last)
qed

lemma unretrieved_snoc:
  assumes "\<forall>y\<in>set rows. rowid y \<le> rowid x" and "retrieved x = 0"
  shows "unretrieved (rows @ [x]) = unretrieved rows @ [x]"
  using assms unfolding unretrieved_def by (simp add: sort_key_snoc)

lemma unretrieved_insert:
  assumes "sql_insert k t u s rows = Inr rows'"
  shows "unretrieved rows' = unretrieved rows @ [last rows']"
    and "last rows' = \<lparr>rowid = next_rowid rows, source_id = k, title = t, url = u, summary = s, retrieved = 0\<rparr>"
    and "rows' = rows @ [last rows']"
proof -
  let ?x = "\<lparr>rowid = next_rowid rows, source_id = k, title = t, url = u, summary = s, retrieved = 0\<rparr>"
  from assms have r: "rows' = rows @ [?x]"
    by (auto simp: sql_insert_def split: if_splits)
  then show "last rows' = ?x" by simp
  then show "rows' = rows @ [last rows']" using r by simp
  have "\<forall>y\<in>set rows. rowid y \<le> rowid ?x"
    using rowid_less_next [of _ rows] by (auto intro: less_imp_le)
  then show "unretrieved rows' = unretrieved rows @ [last rows']"
    unfolding r by (simp add: unretrieved_snoc)
qed

lemma unretrieved_head:
  assumes "unretrieved rows = r # q"
  shows "r \<in> set rows" "retrieved r = 0" "\<forall>x\<in>set rows. retrieved x = 0 \<longrightarrow> rowid r \<le> rowid x"
proof -
  let ?u = "filter (\<lambda>r. retrieved r = 0) rows"
  have s: "set (r # q) = set ?u" using assms unfolding unretrieved_def by (metis set_sort)
  then have "r \<in> set ?u" by auto
  then show "r \<in> set rows" "retrieved r = 0" by auto
  have "sorted (map rowid (r # q))" using assms unfolding unretrieved_def by (metis sorted_sort_key)
  then have "\<forall>x\<in>set q. rowid r \<le> rowid x" by simp
  then have "\<forall>x\<in>set (r # q). rowid r \<le> rowid x" by simp
  then show "\<forall>x\<in>set rows. retrieved x = 0 \<longrightarrow> rowid r \<le> rowid x" unfolding s by simp
qed

lemma unretrieved_mark:
  assumes d: "distinct rows" and u: "unretrieved rows = r # q"
    and P: "\<forall>x\<in>set rows. P x = (x = r)"
  shows "unretrieved (map (\<lambda>x. if P x then x\<lparr>retrieved := 1\<rparr> else x) rows) = q"
proof -
  let ?g = "\<lambda>x. if P x then x\<lparr>retrieved := 1\<rparr> else x"
  have f: "filter (\<lambda>r. retrieved r = 0) (map ?g rows)
           = filter (\<lambda>x. x \<noteq> r) (filter (\<lambda>r. retrieved r = 0) rows)"
    using P by (induction rows) auto
  have "distinct (r # q)" using d u unfolding unretrieved_def by (metis distinct_filter distinct_sort)
  then have nq: "filter (\<lambda>x. x \<noteq> r) q = q" by (auto intro: filter_True)
  have "unretrieved (map ?g rows) = filter (\<lambda>x. x \<noteq> r) (unretrieved rows)"
    unfolding unretrieved_def f by (simp add: filter_sort)
  then show ?thesis using u nq by simp
qed

lemma unretrieved_mark_rowid:
  assumes "distinct (map rowid rows)" "unretrieved rows = r # q"
  shows "unretrieved (mark_rowid (rowid r) rows) = q"
proof -
  have "r \<in> set rows" using assms(2) by (rule unretrieved_head)
  then have "\<forall>x\<in>set rows. (rowid x = rowid r) = (x = r)"
    using assms(1) by (auto simp: distinct_map dest: inj_onD)
  moreover have "distinct rows" using assms(1) by (simp add: distinct_map)
  ultimately show ?thesis unfolding mark_rowid_def using assms(2) by (rule unretrieved_mark [rotated 2])
qed

lemma unretrieved_mark_source:
  assumes "distinct (map source_id rows)" "unretrieved rows = r # q"
  shows "unretrieved (mark_source (source_id r) rows) = q"
proof -
  have "r \<in> set rows" using assms(2) by (rule unretrieved_head)
  then have "\<forall>x\<in>set rows. (source_id x = source_id r) = (x = r)"
    using assms(1) by (auto simp: distinct_map dest: inj_onD)
  moreover have "distinct rows" using assms(1) by (simp add: distinct_map)
  ultimately show ?thesis unfolding mark_source_def using assms(2) by (rule unretrieved_mark [rotated 2])
qed


lemma map_rowid_mark_rowid [simp]: "map rowid (mark_rowid i rows) = map rowid rows"
  unfolding mark_rowid_def by (induction rows) auto

lemma map_source_id_mark_rowid [simp]: "map source_id (mark_rowid i rows) = map source_id rows"
  unfolding mark_rowid_def by (induction rows) auto

lemma map_rowid_mark_source [simp]: "map rowid (mark_source k rows) = map rowid rows"
  unfolding mark_source_def by (induction rows) auto

lemma map_source_id_mark_source [simp]: "map source_id (mark_source k rows) = map source_id rows"
  unfolding mark_source_def by (induction rows) auto

lemma next_rowid_fresh: "next_rowid rows \<notin> set (map rowid rows)"
proof
  assume "next_rowid rows \<in> set (map rowid rows)"
  then obtain x where "x \<in> set rows" "rowid x = next_rowid rows" by auto
  then show False using rowid_less_next [of x rows] by simp
qed

lemma sql_insert_distinct_rowid:
  assumes "sql_insert k t u s rows = Inr rows'" "distinct (map rowid rows)"
  shows "distinct (map rowid rows')"
proof -
  from assms(1) have "map rowid rows' = map rowid rows @ [next_rowid rows]"
    by (simp add: sql_insert_def split: if_splits) auto
  then show ?thesis using assms(2) next_rowid_fresh [of rows] by simp
qed

lemma sql_insert_distinct_source:
  assumes "sql_insert k t u s rows = Inr rows'" "distinct (map source_id rows)"
  shows "distinct (map source_id rows')"
  using assms by (auto simp: sql_insert_def split: if_splits)

lemma getTopNewsItem_Cons:
  "unretrieved (tbl w) = r # q \<Longrightarrow>
   getTopNewsItem w = (Some r, emit (HnUpdate (rowid r)) (w\<lparr>tbl := mark_rowid (rowid r) (tbl w)\<rparr>))"
  by (simp add: getTopNewsItem_def select_oldest_def)

lemma getTopNewsItem_Nil: "unretrieved (tbl w) = [] \<Longrightarrow> getTopNewsItem w = (None, w)"
  by (simp add: getTopNewsItem_def select_oldest_def)

lemma tbl_emit [simp]: "tbl (emit ev w) = tbl w"
  by (simp add: emit_def)

lemma trace_emit [simp]: "trace (emit ev w) = trace w @ [ev]"
  by (simp add: emit_def)

lemma hn_release_queue:
  assumes "distinct (map rowid (tbl w))" "unretrieved (tbl w) = r # q"
  shows "fst (getTopNewsItem w) = Some r"
    and "unretrieved (tbl (snd (getTopNewsItem w))) = q"
    and "distinct (map rowid (tbl (snd (getTopNewsItem w))))"
  using assms by (simp_all add: getTopNewsItem_Cons unretrieved_mark_rowid)

lemma save_queue:
  assumes "saveStoryToDatabase k t u s w = (Inr (), w')"
  shows "unretrieved (tbl w') = unretrieved (tbl w) @ [last (tbl w')]"
    and "distinct (map rowid (tbl w)) \<Longrightarrow> distinct (map rowid (tbl w'))"
proof -
  from assms obtain rows where i: "sql_insert k t u s (tbl w) = Inr rows" and w': "tbl w' = rows"
    by (auto simp: saveStoryToDatabase_def split: sum.splits)
  show "unretrieved (tbl w') = unretrieved (tbl w) @ [last (tbl w')]"
    unfolding w' by (rule unretrieved_insert(1) [OF i])
  show "distinct (map rowid (tbl w)) \<Longrightarrow> distinct (map rowid (tbl w'))"
    unfolding w' by (rule sql_insert_distinct_rowid [OF i])
qed

lemma hn_fifo_scenario:
  assumes d: "distinct (map rowid (tbl w0))" and e: "unretrieved (tbl w0) = []"
    and a: "saveStoryToDatabase a ta ua sa w0 = (Inr (), w1)"
    and b: "saveStoryToDatabase b tb ub sb w1 = (Inr (), w2)"
    and c: "saveStoryToDatabase c tc uc sc w2 = (Inr (), w3)"
  shows "fst (getTopNewsItem w3) = Some (last (tbl w1))
       \<and> fst (getTopNewsItem (snd (getTopNewsItem w3))) = Some (last (tbl w2))
       \<and> fst (getTopNewsItem (snd (getTopNewsItem (snd (getTopNewsItem w3))))) = Some (last (tbl w3))
       \<and> fst (getTopNewsItem (snd (getTopNewsItem (snd (getTopNewsItem (snd (getTopNewsItem w3))))))) = None"
proof -
  let ?A = "last (tbl w1)" and ?B = "last (tbl w2)" and ?C = "last (tbl w3)"
  have q3: "unretrieved (tbl w3) = [?A, ?B, ?C]"
    using save_queue(1) [OF a] save_queue(1) [OF b] save_queue(1) [OF c] e by simp
  have d3: "distinct (map rowid (tbl w3))"
    using save_queue(2) [OF c] save_queue(2) [OF b] save_queue(2) [OF a] d by simp
  let ?w4 = "snd (getTopNewsItem w3)"
  note s4 = hn_release_queue [OF d3 q3]
  let ?w5 = "snd (getTopNewsItem ?w4)"
  note s5 = hn_release_queue [OF s4(3) s4(2)]
  let ?w6 = "snd (getTopNewsItem ?w5)"
  note s6 = hn_release_queue [OF s5(3) s5(2)]
  have "fst (getTopNewsItem ?w6) = None" using s6(2) by (simp add: getTopNewsItem_Nil)
  with s4(1) s5(1) s6(1) show ?thesis by simp
qed


lemma tbl_postToBluesky [simp]: "tbl (postToBluesky env c w) = tbl w"
  by (simp add: postToBluesky_def split: sum.splits)

lemma select_oldest_Cons: "unretrieved rows = r # q \<Longrightarrow> select_oldest rows = Some r"
  by (simp add: select_oldest_def)

lemma select_oldest_Nil: "unretrieved rows = [] \<Longrightarrow> select_oldest rows = None"
  by (simp add: select_oldest_def)

lemma tbl_retrieveAndPost:
  "tbl (retrieveAndPost env w) =
     (case select_oldest (tbl w) of None \<Rightarrow> tbl w | Some r \<Rightarrow> mark_source (source_id r) (tbl w))"
  by (simp add: retrieveAndPost_def mark_retrieved_def split: option.splits)

lemma rd_release_queue:
  assumes "distinct (map source_id (tbl w))" "unretrieved (tbl w) = r # q"
  shows "select_oldest (tbl w) = Some r"
    and "unretrieved (tbl (retrieveAndPost env w)) = q"
    and "distinct (map source_id (tbl (retrieveAndPost env w)))"
  using assms by (simp_all add: tbl_retrieveAndPost select_oldest_Cons unretrieved_mark_source)

lemma insert_post_queue:
  assumes "post_id p \<notin> set (map source_id (tbl w))"
  shows "unretrieved (tbl (insert_post p s w)) = unretrieved (tbl w) @ [last (tbl (insert_post p s w))]"
    and "distinct (map source_id (tbl w)) \<Longrightarrow> distinct (map source_id (tbl (insert_post p s w)))"
    and "set (map source_id (tbl (insert_post p s w))) = insert (post_id p) (set (map source_id (tbl w)))"
proof -
  obtain rows where i: "sql_insert (post_id p) (post_title p) (post_url p) s (tbl w) = Inr rows"
    using assms by (auto simp: sql_insert_def)
  then have w': "tbl (insert_post p s w) = rows" by (simp add: insert_post_def insert_completes_def)
  show "unretrieved (tbl (insert_post p s w)) = unretrieved (tbl w) @ [last (tbl (insert_post p s w))]"
    unfolding w' by (rule unretrieved_insert(1) [OF i])
  show "distinct (map source_id (tbl w)) \<Longrightarrow> distinct (map source_id (tbl (insert_post p s w)))"
    unfolding w' by (rule sql_insert_distinct_source [OF i])
  show "set (map source_id (tbl (insert_post p s w))) = insert (post_id p) (set (map source_id (tbl w)))"
    unfolding w' using i by (auto simp: sql_insert_def split: if_splits)
qed

lemma rd_fifo_scenario:
  assumes d: "distinct (map source_id (tbl v0))" and e: "unretrieved (tbl v0) = []"
    and f: "post_id pa \<notin> set (map source_id (tbl v0))" "post_id pb \<notin> set (map source_id (tbl v0))"
      "post_id pc \<notin> set (map source_id (tbl v0))" "distinct [post_id pa, post_id pb, post_id pc]"
    and v: "v1 = insert_post pa sa v0" "v2 = insert_post pb sb v1" "v3 = insert_post pc sc v2"
  shows "select_oldest (tbl v3) = Some (last (tbl v1))
       \<and> select_oldest (tbl (retrieveAndPost env v3)) = Some (last (tbl v2))
       \<and> select_oldest (tbl (retrieveAndPost env (retrieveAndPost env v3))) = Some (last (tbl v3))
       \<and> select_oldest (tbl (retrieveAndPost env (retrieveAndPost env (retrieveAndPost env v3)))) = None"
proof -
  let ?A = "last (tbl v1)" and ?B = "last (tbl v2)" and ?C = "last (tbl v3)"
  have a: "post_id pa \<notin> set (map source_id (tbl v0))" by (rule f(1))
  have b: "post_id pb \<notin> set (map source_id (tbl v1))"
    unfolding v(1) insert_post_queue(3) [OF a] using f by auto
  have "set (map source_id (tbl v2)) = insert (post_id pb) (insert (post_id pa) (set (map source_id (tbl v0))))"
    using insert_post_queue(3) [OF b, of sb] insert_post_queue(3) [OF a, of sa]
    unfolding v [symmetric] by simp
  then have c: "post_id pc \<notin> set (map source_id (tbl v2))"
    using f by auto
  have q3: "unretrieved (tbl v3) = [?A, ?B, ?C]"
    using insert_post_queue(1) [OF a, of sa] insert_post_queue(1) [OF b, of sb]
      insert_post_queue(1) [OF c, of sc] e unfolding v [symmetric] by simp
  have d3: "distinct (map source_id (tbl v3))"
    using insert_post_queue(2) [OF a, of sa] insert_post_queue(2) [OF b, of sb]
      insert_post_queue(2) [OF c, of sc] d unfolding v [symmetric] by simp
  note s4 = rd_release_queue [OF d3 q3]
  note s5 = rd_release_queue [OF s4(3) s4(2)]
  note s6 = rd_release_queue [OF s5(3) s5(2)]
  have "select_oldest (tbl (retrieveAndPost env (retrieveAndPost env (retrieveAndPost env v3)))) = None"
    using s6(2) by (rule select_oldest_Nil)
  with s4(1) s5(1) s6(1) show ?thesis by simp
qed

lemma select_oldest_min:
  assumes "select_oldest rows = Some r"
  shows "r \<in> set rows \<and> retrieved r = 0 \<and> (\<forall>x\<in>set rows. retrieved x = 0 \<longrightarrow> rowid r \<le> rowid x)"
proof -
  from assms obtain q where "unretrieved rows = r # q"
    by (auto simp: select_oldest_def split: list.splits)
  from unretrieved_head [OF this] show ?thesis by simp
qed

lemma select_oldest_None:
  assumes "select_oldest rows = None"
  shows "\<forall>x\<in>set rows. retrieved x \<noteq> 0"
proof -
  from assms have "unretrieved rows = []" by (auto simp: select_oldest_def split: list.splits)
  then have "set (filter (\<lambda>r. retrieved r = 0) rows) = {}"
    unfolding unretrieved_def by (metis set_sort set_empty)
  then show ?thesis by (auto simp: filter_empty_conv)
qed

lemma fst_getTopNewsItem: "fst (getTopNewsItem w) = select_oldest (tbl w)"
  by (simp add: getTopNewsItem_def split: option.splits)

lemma unretrieved_Nil_iff: "unretrieved rows = [] \<longleftrightarrow> (\<forall>x\<in>set rows. retrieved x \<noteq> 0)"
proof -
  have "unretrieved rows = [] \<longleftrightarrow> filter (\<lambda>r. retrieved r = 0) rows = []"
    unfolding unretrieved_def by (metis set_sort set_empty)
  then show ?thesis by (simp add: filter_empty_conv)
qed

lemma transitions_map:
  "transitions rows (map (\<lambda>x. if P x then x\<lparr>retrieved := 1\<rparr> else x) rows)
     = length (filter (\<lambda>x. retrieved x = 0 \<and> P x) rows)"
  unfolding transitions_def by (induction rows) auto

lemma filter_eq_single:
  "distinct rows \<Longrightarrow> r \<in> set rows \<Longrightarrow> filter (\<lambda>x. x = r) rows = [r]"
  by (induction rows) (auto simp: filter_empty_conv)

lemma transitions_mark_one:
  assumes "distinct rows" "r \<in> set rows" "retrieved r = 0" "\<forall>x\<in>set rows. P x = (x = r)"
  shows "transitions rows (map (\<lambda>x. if P x then x\<lparr>retrieved := 1\<rparr> else x) rows) = 1"
proof -
  have "filter (\<lambda>x. retrieved x = 0 \<and> P x) rows = filter (\<lambda>x. x = r) rows"
    using assms(3,4) by (intro filter_cong) auto
  then show ?thesis using assms(1,2) by (simp add: transitions_map filter_eq_single)
qed

lemma transitions_same [simp]: "transitions rows rows = 0"
  unfolding transitions_def by (induction rows) auto

lemma flags_only_map:
  "map (retrieved_update (\<lambda>_. 0)) (map (\<lambda>x. if P x then x\<lparr>retrieved := 1\<rparr> else x) rows)
     = map (retrieved_update (\<lambda>_. 0)) rows"
  by (induction rows) auto

lemma hn_release_one:
  assumes "distinct (map rowid (tbl w))"
  shows "transitions (tbl w) (tbl (snd (getTopNewsItem w)))
           = (if \<exists>x\<in>set (tbl w). retrieved x = 0 then 1 else 0)"
proof (cases "select_oldest (tbl w)")
  case None
  from select_oldest_None [OF this] show ?thesis using None by (simp add: getTopNewsItem_def)
next
  case (Some r)
  note m = select_oldest_min [OF Some]
  have "\<forall>x\<in>set (tbl w). (rowid x = rowid r) = (x = r)"
    using assms m by (auto simp: distinct_map dest: inj_onD)
  moreover have "distinct (tbl w)" using assms by (simp add: distinct_map)
  ultimately have "transitions (tbl w) (mark_rowid (rowid r) (tbl w)) = 1"
    unfolding mark_rowid_def using m by (intro transitions_mark_one) auto
  then show ?thesis using Some m by (auto simp: getTopNewsItem_def)
qed

lemma rd_release_one:
  assumes "distinct (map source_id (tbl v))"
  shows "transitions (tbl v) (tbl (retrieveAndPost env v))
           = (if \<exists>x\<in>set (tbl v). retrieved x = 0 then 1 else 0)"
proof (cases "select_oldest (tbl v)")
  case None
  from select_oldest_None [OF this] show ?thesis using None by (simp add: tbl_retrieveAndPost)
next
  case (Some r)
  note m = select_oldest_min [OF Some]
  have "\<forall>x\<in>set (tbl v). (source_id x = source_id r) = (x = r)"
    using assms m by (auto simp: distinct_map dest: inj_onD)
  moreover have "distinct (tbl v)" using assms by (simp add: distinct_map)
  ultimately have "transitions (tbl v) (mark_source (source_id r) (tbl v)) = 1"
    unfolding mark_source_def using m by (intro transitions_mark_one) auto
  then show ?thesis using Some m by (auto simp: tbl_retrieveAndPost)
qed

lemma tbl_testRetrieval: "tbl (snd (testRetrieval env w)) = tbl (snd (getTopNewsItem w))"
  by (simp add: testRetrieval_def split: prod.splits option.splits sum.splits)

lemma hn_release_flags_only:
  "map (retrieved_update (\<lambda>_. 0)) (tbl (snd (getTopNewsItem w)))
     = map (retrieved_update (\<lambda>_. 0)) (tbl w)"
  by (simp add: getTopNewsItem_def mark_rowid_def flags_only_map split: option.splits)

lemma rd_release_flags_only:
  "map (retrieved_update (\<lambda>_. 0)) (tbl (retrieveAndPost env v))
     = map (retrieved_update (\<lambda>_. 0)) (tbl v)"
  by (simp add: tbl_retrieveAndPost mark_source_def flags_only_map split: option.splits)

lemma select_oldest_None_iff:
  "select_oldest rows = None \<longleftrightarrow> (\<forall>x\<in>set rows. retrieved x \<noteq> 0)"
proof -
  have "select_oldest rows = None \<longleftrightarrow> unretrieved rows = []"
    by (simp add: select_oldest_def split: list.splits)
  then show ?thesis by (simp only: unretrieved_Nil_iff)
qed

section \<open>Ingestion\<close>


lemma comment_loop_ok:
  assumes "\<forall>c\<in>set ids. \<not> isl (item_json env c)"
  shows "comment_loop env ids acc w
           = (Inr (acc @ discussion_texts env ids), w\<lparr>trace := trace w @ map HnGetItem ids\<rparr>)"
  using assms
proof (induction ids arbitrary: acc w)
  case Nil
  then show ?case by (simp add: discussion_texts_def)
next
  case (Cons c ids)
  from Cons.prems obtain d where d: "item_json env c = Inr d" by (cases "item_json env c") auto
  have r: "\<forall>c\<in>set ids. \<not> isl (item_json env c)" using Cons.prems by simp
  show ?case
    using d Cons.IH [OF r]
    by (simp add: fetchStoryDetails_def discussion_texts_def entry_text_def emit_def
        split: option.splits)
qed

lemma length_discussion_texts: "length (discussion_texts env ids) \<le> length ids"
  unfolding discussion_texts_def
  by (induction ids) (auto simp: entry_text_def split: sum.splits option.splits)

lemma process_story_new:
  assumes "\<not> isStoryProcessed k w" "item_json env k = Inr (Some story)"
    "kids story = Some ks" "item_url story = Some u" "u \<noteq> []"
    "\<forall>c\<in>set (take 25 ks). \<not> isl (item_json env c)"
    "chat env hn_system (hn_user (join [LF] (discussion_texts env (take 25 ks)))) = Inr s"
  shows "process_story env k w
     = saveStoryToDatabase k (item_title story) u s
         (w\<lparr>tbl := overlap env k (tbl w),
            trace := trace w @ HnGetItem k # map HnGetItem (take 25 ks)
              @ [HnSummarize (join [LF] (discussion_texts env (take 25 ks)))]\<rparr>)"
  using assms
  by (simp add: process_story_def fetchStoryDetails_def comment_loop_ok summarizeComments_def
      emit_def)

lemma insert_post_fresh:
  assumes "post_id p \<notin> set (map source_id (tbl w))"
  shows "insert_post p s w
     = \<lparr>tbl = tbl w @ [\<lparr>rowid = next_rowid (tbl w), source_id = post_id p, title = post_title p,
                         url = post_url p, summary = s, retrieved = 0\<rparr>],
        trace = trace w @ [RdInsert (post_id p)]\<rparr>"
  using assms by (simp add: insert_post_def insert_completes_def sql_insert_def emit_def)

lemma post_callback_new:
  assumes "chat env title_system (title_user (post_title p)) = Inr t"
    and "chat env discussion_system
       (discussion_user (if selftext p = [] then post_title p else selftext p)) = Inr s"
  shows "post_callback env p False w
     = (Running, insert_post p s (w\<lparr>trace := trace w @ [RdSummarizeTitle (post_title p),
         RdSummarizeDiscussion (if selftext p = [] then post_title p else selftext p)]\<rparr>))"
  using assms
  by (simp add: post_callback_def summarizeTitle_def summarizeDiscussion_def emit_def
      insert_post_def)

lemma release_many:
  assumes "distinct (map source_id (tbl v))"
  shows "n \<le> length (unretrieved (tbl v)) \<Longrightarrow>
     unretrieved (tbl ((retrieveAndPost env ^^ n) v)) = drop n (unretrieved (tbl v))
     \<and> distinct (map source_id (tbl ((retrieveAndPost env ^^ n) v)))"
proof (induction n)
  case 0
  then show ?case using assms by simp
next
  case (Suc n)
  let ?v = "(retrieveAndPost env ^^ n) v"
  from Suc have q: "unretrieved (tbl ?v) = drop n (unretrieved (tbl v))"
    and d: "distinct (map source_id (tbl ?v))" by simp_all
  from Suc.prems have "n < length (unretrieved (tbl v))" by simp
  then have "drop n (unretrieved (tbl v))
      = unretrieved (tbl v) ! n # drop (Suc n) (unretrieved (tbl v))"
    by (rule Cons_nth_drop_Suc [symmetric])
  with q have c: "unretrieved (tbl ?v)
      = unretrieved (tbl v) ! n # drop (Suc n) (unretrieved (tbl v))" by simp
  from rd_release_queue(2,3) [OF d c, of env] show ?case by simp
qed

lemmas sample_defs = hn_old_def hn_abc_def rd_old_def rd_abc_def post_a_def post_b_def
  post_c_def rd_env_ok_def hn_env_ok_def row_101_def row_pa_def
  hn_items_def hn_env_page_def hn_env_throw_def hn_env_throw2_def hn_env_race_def child_a_def child_b_def
  rd_env_two_def rd_env_dup_def rd_env_dup_swap_def rd_env_fail_def rd_env_fail_late_def
  rd_env_one_def rd_overlap_def rd_pending_def

lemmas run_defs = saveStoryToDatabase_def sql_insert_def next_rowid_def emit_def
  insert_post_def insert_completes_def getTopNewsItem_def select_oldest_def unretrieved_def mark_rowid_def
  mark_source_def retrieveAndPost_def mark_retrieved_def postToBluesky_def

lemmas ingest_defs = process_story_def isStoryProcessed_def fetchStoryDetails_def
  summarizeComments_def fetchTopStories_def hn_main_def testRetrieval_def processPosts_def
  fetchRecentPosts_def post_callback_def summarizeTitle_def summarizeDiscussion_def
  ingest_posts_def hn_startup_def


section \<open>Runs on the sample listings\<close>

lemma run_dup:
  "ingest_posts rd_env_dup rd_old
      = (Inr Running,
         \<lparr>tbl = tbl rd_old @ [\<lparr>rowid = 2, source_id = ''pa'', title = ''A'',
              url = ''https://www.reddit.com/r/losangeles/comments/pa/a/'', summary = ''fine'',
              retrieved = 0\<rparr>,
            \<lparr>rowid = 3, source_id = ''pb'', title = ''B'',
              url = ''https://www.reddit.com/r/losangeles/comments/pb/b/'', summary = ''fine'',
              retrieved = 0\<rparr>],
          trace = [RdGetPosts, RdSummarizeTitle ''A'', RdSummarizeTitle ''A'',
            RdSummarizeTitle ''B'', RdSummarizeDiscussion ''body a'',
            RdSummarizeDiscussion ''body a'', RdSummarizeDiscussion ''B'',
            RdInsert ''pa'', RdInsert ''pa'', RdInsert ''pb'',
            RdConsoleError SQLITE_CONSTRAINT]\<rparr>)"
  by code_simp

lemma run_dup_swap:
  "ingest_posts rd_env_dup_swap rd_old
      = (Inr Running,
         \<lparr>tbl = tbl rd_old @ [\<lparr>rowid = 2, source_id = ''pa'', title = ''A'',
              url = ''https://www.reddit.com/r/losangeles/comments/pa/a/'', summary = ''fine'',
              retrieved = 0\<rparr>,
            \<lparr>rowid = 3, source_id = ''pb'', title = ''B'',
              url = ''https://www.reddit.com/r/losangeles/comments/pb/b/'', summary = ''fine'',
              retrieved = 0\<rparr>],
          trace = [RdGetPosts, RdSummarizeTitle ''A'', RdSummarizeTitle ''A'',
            RdSummarizeTitle ''B'', RdSummarizeDiscussion ''body a'', RdInsert ''pa'',
            RdSummarizeDiscussion ''body a'', RdInsert ''pa'',
            RdConsoleError SQLITE_CONSTRAINT,
            RdSummarizeDiscussion ''B'', RdInsert ''pb'']\<rparr>)"
  by code_simp

lemma run_overlap:
  "fst rd_overlap = Running"
  "trace (snd (snd rd_overlap))
     = [RdGetPosts, RdSummarizeTitle ''A'', RdGetPosts, RdSummarizeTitle ''A'',
        RdSummarizeDiscussion ''body a'', RdSummarizeDiscussion ''body a'',
        RdInsert ''pa'', RdInsert ''pa'', RdConsoleError SQLITE_CONSTRAINT]"
  "map source_id (tbl (snd (snd rd_overlap))) = [''p0'', ''pa'']"
  by code_simp+

lemma run_fail:
  "ingest_posts rd_env_fail rd_old
     = (Inr (Exited RequestFailed),
        rd_old\<lparr>trace := [RdGetPosts, RdSummarizeTitle ''A'', RdSummarizeTitle ''B'',
                          RdUnhandledRejection RequestFailed]\<rparr>)"
  by code_simp

lemma run_fail_late:
  "fst (ingest_posts rd_env_fail_late rd_old) = Inr (Exited RequestFailed)"
  "trace (snd (ingest_posts rd_env_fail_late rd_old))
     = [RdGetPosts, RdSummarizeTitle ''A'', RdSummarizeTitle ''B'', RdSummarizeDiscussion ''B'',
        RdInsert ''pb'', RdUnhandledRejection RequestFailed]"
  "map source_id (tbl (snd (ingest_posts rd_env_fail_late rd_old))) = [''p0'', ''pb'']"
  by code_simp+

lemma run_story_twice:
  "story_loop hn_env_page [7, 7] hn_old
     = (Inr (),
        \<lparr>tbl = tbl hn_old @ [\<lparr>rowid = 2, source_id = 7, title = ''Story 7'',
             url = ''http://s7'', summary = ''fine'', retrieved = 0\<rparr>],
         trace = [HnGetItem 7, HnGetItem 71, HnGetItem 72, HnGetItem 73, HnGetItem 74,
                  HnSummarize (''great'' @ [LF] @ ''meh''), HnInsert 7]\<rparr>)"
  by (simp add: sample_defs run_defs ingest_defs)

lemma run_race:
  "fst (hn_main hn_env_race hn_old) = Inl SQLITE_CONSTRAINT"
  "trace (snd (hn_main hn_env_race hn_old))
     = [HnGetTopStories, HnGetItem 7, HnGetItem 71, HnGetItem 72, HnGetItem 73, HnGetItem 74,
        HnSummarize (''great'' @ [LF] @ ''meh''), HnInsert 7]"
  "map source_id (tbl (snd (hn_main hn_env_race hn_old))) = [90, 7]"
  "fst (hn_main hn_env_page hn_old) = Inr ()"
  "map source_id (tbl (snd (hn_main hn_env_page hn_old))) = [90, 7, 9]"
  by (simp_all add: sample_defs run_defs ingest_defs)

lemma run_throw:
  "fst (hn_startup hn_env_throw2 hn_old) = Exited RequestFailed"
  "trace (snd (hn_startup hn_env_throw2 hn_old))
     = [HnGetTopStories, HnGetItem 9, HnSummarize [], HnInsert 9,
        HnGetItem 7, HnGetItem 71, HnGetItem 72]"
  "map source_id (tbl (snd (hn_startup hn_env_throw2 hn_old))) = [90, 9]"
  by (simp_all add: sample_defs run_defs ingest_defs)
section \<open>Release order\<close>

text \<open>
  Claim C1. Release is first-in-first-out by creation order. In every table, the select of
  the release step (\<open>getTopNewsItem\<close>, and the select of \<open>retrieveAndPost\<close>) returns an
  unpublished record whose rowid is smallest among the unpublished ones, and returns none
  only when every record is published. When records A, B and C are created in this order
  in a table without unpublished records, three successive releases return A, then B,
  then C, and a fourth returns none; this holds in both scripts.
\<close>

theorem release_fifo:
  assumes "distinct (map rowid (tbl w0))" and "\<forall>x\<in>set (tbl w0). retrieved x \<noteq> 0"
    and "saveStoryToDatabase a ta ua sa w0 = (Inr (), w1)"
    and "saveStoryToDatabase b tb ub sb w1 = (Inr (), w2)"
    and "saveStoryToDatabase c tc uc sc w2 = (Inr (), w3)"
    and "distinct (map source_id (tbl v0))" and "\<forall>x\<in>set (tbl v0). retrieved x \<noteq> 0"
    and "post_id pa \<notin> set (map source_id (tbl v0))"
    and "post_id pb \<notin> set (map source_id (tbl v0))"
    and "post_id pc \<notin> set (map source_id (tbl v0))"
    and "distinct [post_id pa, post_id pb, post_id pc]"
    and "v1 = insert_post pa sa' v0" and "v2 = insert_post pb sb' v1"
    and "v3 = insert_post pc sc' v2"
  shows "(\<forall>w r. fst (getTopNewsItem w) = Some r \<longrightarrow>
            r \<in> set (tbl w) \<and> retrieved r = 0
            \<and> (\<forall>x\<in>set (tbl w). retrieved x = 0 \<longrightarrow> rowid r \<le> rowid x))
       \<and> (\<forall>w. fst (getTopNewsItem w) = None \<longrightarrow> (\<forall>x\<in>set (tbl w). retrieved x \<noteq> 0))
       \<and> (\<forall>v r. select_oldest (tbl v) = Some r \<longrightarrow>
            retrieveAndPost env v = mark_retrieved r (postToBluesky env (rd_message r) v)
            \<and> r \<in> set (tbl v) \<and> retrieved r = 0
            \<and> (\<forall>x\<in>set (tbl v). retrieved x = 0 \<longrightarrow> rowid r \<le> rowid x))
       \<and> (\<forall>v. select_oldest (tbl v) = None \<longrightarrow>
            retrieveAndPost env v = v \<and> (\<forall>x\<in>set (tbl v). retrieved x \<noteq> 0))
       \<and> (fst (getTopNewsItem w3) = Some (last (tbl w1))
          \<and> fst (getTopNewsItem (snd (getTopNewsItem w3))) = Some (last (tbl w2))
          \<and> fst (getTopNewsItem (snd (getTopNewsItem (snd (getTopNewsItem w3)))))
              = Some (last (tbl w3))
          \<and> fst (getTopNewsItem (snd (getTopNewsItem (snd (getTopNewsItem
                (snd (getTopNewsItem w3))))))) = None)
       \<and> (select_oldest (tbl v3) = Some (last (tbl v1))
          \<and> select_oldest (tbl (retrieveAndPost env v3)) = Some (last (tbl v2))
          \<and> select_oldest (tbl (retrieveAndPost env (retrieveAndPost env v3)))
              = Some (last (tbl v3))
          \<and> select_oldest (tbl (retrieveAndPost env (retrieveAndPost env
                (retrieveAndPost env v3)))) = None)"
    (is "?G1 \<and> ?G2 \<and> ?G3 \<and> ?G4 \<and> ?H \<and> ?R")
proof -
  have g1: ?G1
    unfolding fst_getTopNewsItem using select_oldest_min by blast
  have g2: ?G2
    unfolding fst_getTopNewsItem using select_oldest_None by blast
  have g3: ?G3
    using select_oldest_min by (simp add: retrieveAndPost_def) blast
  have g4: ?G4
    using select_oldest_None by (simp add: retrieveAndPost_def) blast
  have e1: "unretrieved (tbl w0) = []" using assms(2) by (simp add: unretrieved_Nil_iff)
  have e2: "unretrieved (tbl v0) = []" using assms(7) by (simp add: unretrieved_Nil_iff)
  have h: ?H by (rule hn_fifo_scenario [OF assms(1) e1 assms(3,4,5)])
  have r: ?R by (rule rd_fifo_scenario [OF assms(6) e2 assms(8,9,10,11,12,13,14)])
  show ?thesis
    by (rule conjI [OF g1 conjI [OF g2 conjI [OF g3 conjI [OF g4 conjI [OF h r]]]]])
qed

theorem release_fifo_witness:
  "map_option source_id (fst (getTopNewsItem hn_abc)) = Some 101
   \<and> map_option source_id (fst (getTopNewsItem (snd (getTopNewsItem hn_abc)))) = Some 102
   \<and> map_option source_id
        (fst (getTopNewsItem (snd (getTopNewsItem (snd (getTopNewsItem hn_abc)))))) = Some 103
   \<and> fst (getTopNewsItem (snd (getTopNewsItem (snd (getTopNewsItem
        (snd (getTopNewsItem hn_abc))))))) = None
   \<and> map_option source_id (select_oldest (tbl rd_abc)) = Some ''pa''
   \<and> map_option source_id (select_oldest (tbl (retrieveAndPost rd_env_ok rd_abc))) = Some ''pb''
   \<and> map_option source_id (select_oldest (tbl (retrieveAndPost rd_env_ok
        (retrieveAndPost rd_env_ok rd_abc)))) = Some ''pc''
   \<and> select_oldest (tbl (retrieveAndPost rd_env_ok (retrieveAndPost rd_env_ok
        (retrieveAndPost rd_env_ok rd_abc)))) = None"
proof -
  let ?w1 = "snd (saveStoryToDatabase 101 ''A'' ''http://a'' ''sa'' hn_old)"
  let ?w2 = "snd (saveStoryToDatabase 102 ''B'' ''http://b'' ''sb'' ?w1)"
  let ?v1 = "insert_post post_a ''sa'' rd_old"
  let ?v2 = "insert_post post_b ''sb'' ?v1"
  have h1: "distinct (map rowid (tbl hn_old))" by (simp add: sample_defs)
  have h2: "\<forall>x\<in>set (tbl hn_old). retrieved x \<noteq> 0" by (simp add: sample_defs)
  have h3: "saveStoryToDatabase 101 ''A'' ''http://a'' ''sa'' hn_old = (Inr (), ?w1)"
    by (simp add: sample_defs run_defs)
  have h4: "saveStoryToDatabase 102 ''B'' ''http://b'' ''sb'' ?w1 = (Inr (), ?w2)"
    by (simp add: sample_defs run_defs)
  have h5: "saveStoryToDatabase 103 ''C'' ''http://c'' ''sc'' ?w2 = (Inr (), hn_abc)"
    by (simp add: sample_defs run_defs)
  have r1: "distinct (map source_id (tbl rd_old))" by (simp add: sample_defs)
  have r2: "\<forall>x\<in>set (tbl rd_old). retrieved x \<noteq> 0" by (simp add: sample_defs)
  have r3: "post_id post_a \<notin> set (map source_id (tbl rd_old))"
    "post_id post_b \<notin> set (map source_id (tbl rd_old))"
    "post_id post_c \<notin> set (map source_id (tbl rd_old))"
    "distinct [post_id post_a, post_id post_b, post_id post_c]"
    by (simp_all add: sample_defs)
  have r4: "rd_abc = insert_post post_c ''sc'' ?v2" by (simp add: rd_abc_def)
  note t = release_fifo [OF h1 h2 h3 h4 h5 r1 r2 r3 refl refl r4, of rd_env_ok]
  have l1: "source_id (last (tbl ?w1)) = 101" "source_id (last (tbl ?w2)) = 102"
    "source_id (last (tbl hn_abc)) = 103"
    by (simp_all add: sample_defs run_defs)
  have l2: "source_id (last (tbl ?v1)) = ''pa''" "source_id (last (tbl ?v2)) = ''pb''"
    "source_id (last (tbl rd_abc)) = ''pc''"
    by (simp_all add: sample_defs run_defs)
  from t have "fst (getTopNewsItem hn_abc) = Some (last (tbl ?w1))"
    "fst (getTopNewsItem (snd (getTopNewsItem hn_abc))) = Some (last (tbl ?w2))"
    "fst (getTopNewsItem (snd (getTopNewsItem (snd (getTopNewsItem hn_abc)))))
       = Some (last (tbl hn_abc))"
    "fst (getTopNewsItem (snd (getTopNewsItem (snd (getTopNewsItem
        (snd (getTopNewsItem hn_abc))))))) = None"
    "select_oldest (tbl rd_abc) = Some (last (tbl ?v1))"
    "select_oldest (tbl (retrieveAndPost rd_env_ok rd_abc)) = Some (last (tbl ?v2))"
    "select_oldest (tbl (retrieveAndPost rd_env_ok (retrieveAndPost rd_env_ok rd_abc)))
       = Some (last (tbl rd_abc))"
    "select_oldest (tbl (retrieveAndPost rd_env_ok (retrieveAndPost rd_env_ok
        (retrieveAndPost rd_env_ok rd_abc)))) = None"
    by blast+
  then show ?thesis by (simp only: option.map l1 l2 simp_thms)
qed

section \<open>One record per release\<close>

text \<open>
  Claim C4. In every table that satisfies its key constraints, one invocation of the release
  step takes exactly one record from unpublished to published when an unpublished record
  exists, and none when there is none; in the latter case it returns the absence signal
  (\<open>None\<close>, not an error) and leaves the state as it was. No other column of any row
  changes. This holds for \<open>getTopNewsItem\<close> and \<open>testRetrieval\<close> of the Hacker News script
  and for \<open>retrieveAndPost\<close> of the Reddit script, whatever the publish step answers.
\<close>

theorem release_marks_one:
  assumes "distinct (map rowid (tbl w))" and "distinct (map source_id (tbl v))"
  shows "transitions (tbl w) (tbl (snd (getTopNewsItem w)))
           = (if \<exists>x\<in>set (tbl w). retrieved x = 0 then 1 else 0)
       \<and> transitions (tbl w) (tbl (snd (testRetrieval env w)))
           = (if \<exists>x\<in>set (tbl w). retrieved x = 0 then 1 else 0)
       \<and> map (retrieved_update (\<lambda>_. 0)) (tbl (snd (testRetrieval env w)))
           = map (retrieved_update (\<lambda>_. 0)) (tbl w)
       \<and> (if \<exists>x\<in>set (tbl w). retrieved x = 0 then fst (getTopNewsItem w) \<noteq> None
           else getTopNewsItem w = (None, w) \<and> testRetrieval env w = (Inr (), w))
       \<and> transitions (tbl v) (tbl (retrieveAndPost env' v))
           = (if \<exists>x\<in>set (tbl v). retrieved x = 0 then 1 else 0)
       \<and> map (retrieved_update (\<lambda>_. 0)) (tbl (retrieveAndPost env' v))
           = map (retrieved_update (\<lambda>_. 0)) (tbl v)
       \<and> (if \<exists>x\<in>set (tbl v). retrieved x = 0 then select_oldest (tbl v) \<noteq> None
           else retrieveAndPost env' v = v)"
proof -
  have n: "(fst (getTopNewsItem w) = None) = (\<forall>x\<in>set (tbl w). retrieved x \<noteq> 0)"
    by (simp only: fst_getTopNewsItem select_oldest_None_iff)
  have "select_oldest (tbl w) = None \<Longrightarrow> getTopNewsItem w = (None, w)"
    by (simp add: getTopNewsItem_def)
  moreover have "select_oldest (tbl w) = None \<Longrightarrow> testRetrieval env w = (Inr (), w)"
    by (simp add: testRetrieval_def getTopNewsItem_def)
  ultimately have a: "if \<exists>x\<in>set (tbl w). retrieved x = 0 then fst (getTopNewsItem w) \<noteq> None
      else getTopNewsItem w = (None, w) \<and> testRetrieval env w = (Inr (), w)"
    using n by (auto simp: select_oldest_None_iff)
  have "select_oldest (tbl v) = None \<Longrightarrow> retrieveAndPost env' v = v"
    by (simp add: retrieveAndPost_def)
  then have b: "if \<exists>x\<in>set (tbl v). retrieved x = 0 then select_oldest (tbl v) \<noteq> None
      else retrieveAndPost env' v = v"
    by (auto simp: select_oldest_None_iff)
  show ?thesis
    using hn_release_one [OF assms(1)] rd_release_one [OF assms(2), of env'] a b
    by (simp only: tbl_testRetrieval hn_release_flags_only rd_release_flags_only simp_thms)
qed

theorem release_marks_one_witness:
  "transitions (tbl hn_abc) (tbl (snd (testRetrieval hn_env_ok hn_abc))) = 1
   \<and> transitions (tbl rd_abc) (tbl (retrieveAndPost rd_env_ok rd_abc)) = 1
   \<and> transitions (tbl hn_old) (tbl (snd (testRetrieval hn_env_ok hn_old))) = 0
   \<and> getTopNewsItem hn_old = (None, hn_old)
   \<and> retrieveAndPost rd_env_ok rd_old = rd_old"
proof -
  have h: "distinct (map rowid (tbl hn_abc))" "distinct (map source_id (tbl rd_abc))"
    "distinct (map rowid (tbl hn_old))" "distinct (map source_id (tbl rd_old))"
    by (simp_all add: sample_defs run_defs)
  have u: "\<exists>x\<in>set (tbl hn_abc). retrieved x = 0" "\<exists>x\<in>set (tbl rd_abc). retrieved x = 0"
    "\<not> (\<exists>x\<in>set (tbl hn_old). retrieved x = 0)" "\<not> (\<exists>x\<in>set (tbl rd_old). retrieved x = 0)"
    by (simp_all add: sample_defs run_defs)
  show ?thesis
    using release_marks_one [OF h(1,2), of hn_env_ok rd_env_ok]
      release_marks_one [OF h(3,4), of hn_env_ok rd_env_ok] u
    by simp
qed

section \<open>A release that finds nothing\<close>

text \<open>
  Claim C10. When no record is unpublished, the release step changes nothing: the table
  keeps every row with every column, the published flag included, and no effect is
  performed (no update, no login, no post), so the whole state is the one before. This
  holds for \<open>getTopNewsItem\<close>, \<open>testRetrieval\<close> and \<open>retrieveAndPost\<close>.
\<close>

theorem release_of_nothing_is_noop:
  assumes "\<forall>x\<in>set (tbl w). retrieved x \<noteq> 0" and "\<forall>x\<in>set (tbl v). retrieved x \<noteq> 0"
  shows "getTopNewsItem w = (None, w) \<and> testRetrieval env w = (Inr (), w)
       \<and> retrieveAndPost env' v = v"
proof -
  have "select_oldest (tbl w) = None" "select_oldest (tbl v) = None"
    using assms by (simp_all only: select_oldest_None_iff)
  then show ?thesis
    by (simp add: getTopNewsItem_def testRetrieval_def retrieveAndPost_def)
qed

theorem release_of_nothing_is_noop_witness:
  "getTopNewsItem hn_old = (None, hn_old) \<and> testRetrieval hn_env_ok hn_old = (Inr (), hn_old)
   \<and> retrieveAndPost rd_env_ok rd_old = rd_old"
proof -
  have "\<forall>x\<in>set (tbl hn_old). retrieved x \<noteq> 0" "\<forall>x\<in>set (tbl rd_old). retrieved x \<noteq> 0"
    by (simp_all add: sample_defs)
  then show ?thesis by (rule release_of_nothing_is_noop)
qed

section \<open>Marking and publishing\<close>

text \<open>
  Claim C3. The claim is that every release marks the record published before handing it
  to the publish step, so that a crash during publishing leaves it marked. The Hacker News
  script does so: on the sample table the trace of \<open>testRetrieval\<close> has the update before
  the login and the post, and the table \<open>getTopNewsItem\<close> returns already has the flag
  set. The Reddit script does not: \<open>retrieveAndPost\<close> runs \<open>postToBluesky\<close> on the table
  in which the selected row is still unpublished and marks it only after that call has
  returned, so a crash during publishing leaves the record unpublished.
\<close>

theorem reddit_publishes_before_marking:
  "select_oldest (tbl rd_abc) = Some row_pa
   \<and> retrieveAndPost rd_env_ok rd_abc
       = mark_retrieved row_pa (postToBluesky rd_env_ok (rd_message row_pa) rd_abc)
   \<and> map retrieved (tbl (postToBluesky rd_env_ok (rd_message row_pa) rd_abc)) = [1, 0, 0, 0]
   \<and> trace (retrieveAndPost rd_env_ok rd_abc)
       = trace rd_abc @ [RdLogin, RdPost (rd_message row_pa), RdUpdate ''pa'']
   \<and> select_oldest (tbl hn_abc) = Some row_101
   \<and> map retrieved (tbl (snd (getTopNewsItem hn_abc))) = [1, 1, 0, 0]
   \<and> trace (snd (testRetrieval hn_env_ok hn_abc))
       = trace hn_abc @ [HnUpdate 2, HnLogin, HnPost (hn_message row_101)]"
proof -
  have a: "select_oldest (tbl rd_abc) = Some row_pa" by (simp add: sample_defs run_defs)
  have b: "select_oldest (tbl hn_abc) = Some row_101" by (simp add: sample_defs run_defs)
  have c: "map retrieved (tbl rd_abc) = [1, 0, 0, 0]" by (simp add: sample_defs run_defs)
  have d: "map retrieved (mark_rowid 2 (tbl hn_abc)) = [1, 1, 0, 0]"
    by (simp add: sample_defs run_defs)
  have e: "login rd_env_ok = Inr ()" "post rd_env_ok (rd_message row_pa) = Inr ()"
    "login hn_env_ok = Inr ()" "post hn_env_ok (hn_message row_101) = Inr ()"
    "source_id row_pa = ''pa''" "rowid row_101 = 2"
    by (simp_all add: sample_defs)
  show ?thesis
    using a b c d e
    by (simp add: retrieveAndPost_def testRetrieval_def getTopNewsItem_def mark_retrieved_def
        postToBluesky_def)
qed

section \<open>The published message\<close>

text \<open>
  Claim C8, as stated, fails: the last line of the message is not the record's stored
  \<open>url\<close>. For the sample records the message differs from the text the claim describes.
\<close>

theorem message_link_counterexample:
  "hn_message row_101 \<noteq> newspaper @ '' '' @ title row_101 @ [CR, LF, CR, LF]
       @ speech_balloon @ '' '' @ summary row_101 @ [CR, LF, CR, LF] @ url row_101
   \<and> rd_message row_pa \<noteq> newspaper @ '' '' @ title row_pa @ [LF, LF]
       @ speech_balloon @ '' '' @ summary row_pa @ [LF, LF] @ url row_pa"
  by (simp add: hn_message_def rd_message_def row_101_def row_pa_def)

text \<open>
  Claim C8, amended. For every record handed to the publish step, the message text is
  built from that record alone, in this fixed order: the newspaper marker, a space and the
  title; a blank line; the speech-balloon marker, a space and the summary; a blank line;
  and a link built from the record's external identifier
  (\<^verbatim>\<open>https://news.ycombinator.com/item?id=\<close> followed by the story id in decimal,
  respectively \<^verbatim>\<open>https://www.reddit.com/r/LosAngeles/comments/\<close> followed by the post
  id). The stored \<open>url\<close> column does not enter the message. Lines end in CR LF in the
  Hacker News script and in LF in the Reddit script.
\<close>

theorem published_message_shape:
  assumes "select_oldest (tbl w) = Some r" and "login env = Inr ()"
    and "select_oldest (tbl v) = Some r'"
  shows "trace (snd (testRetrieval env w))
           = trace w @ [HnUpdate (rowid r), HnLogin,
               HnPost (newspaper @ '' '' @ title r @ [CR, LF, CR, LF]
                 @ speech_balloon @ '' '' @ summary r @ [CR, LF, CR, LF]
                 @ ''https://news.ycombinator.com/item?id='' @ string_of_nat (source_id r))]
       \<and> hn_message (r\<lparr>url := u\<rparr>) = hn_message r
       \<and> retrieveAndPost env' v
           = mark_retrieved r' (postToBluesky env'
               (newspaper @ '' '' @ title r' @ [LF, LF] @ speech_balloon @ '' '' @ summary r'
                 @ [LF, LF] @ ''https://www.reddit.com/r/LosAngeles/comments/'' @ source_id r') v)
       \<and> rd_message (r'\<lparr>url := u'\<rparr>) = rd_message r'"
  using assms
  by (simp add: testRetrieval_def getTopNewsItem_def retrieveAndPost_def hn_message_def
      rd_message_def split: sum.splits)

theorem published_message_shape_witness:
  "trace (snd (testRetrieval hn_env_ok hn_abc))
     = trace hn_abc @ [HnUpdate 2, HnLogin,
         HnPost (newspaper @ '' A'' @ [CR, LF, CR, LF] @ speech_balloon @ '' sa''
           @ [CR, LF, CR, LF] @ ''https://news.ycombinator.com/item?id=101'')]
   \<and> retrieveAndPost rd_env_ok rd_abc
     = mark_retrieved row_pa (postToBluesky rd_env_ok
         (newspaper @ '' A'' @ [LF, LF] @ speech_balloon @ '' sa'' @ [LF, LF]
           @ ''https://www.reddit.com/r/LosAngeles/comments/pa'') rd_abc)"
proof -
  have a: "select_oldest (tbl hn_abc) = Some row_101" by (simp add: sample_defs run_defs)
  have b: "login hn_env_ok = Inr ()" by (simp add: sample_defs)
  have c: "select_oldest (tbl rd_abc) = Some row_pa" by (simp add: sample_defs run_defs)
  have d: "string_of_nat 101 = ''101''" by (simp add: string_of_nat.simps digit_def)
  show ?thesis
    using published_message_shape [OF a b c, of "''x''" rd_env_ok "''y''"] d
    by (simp add: row_101_def row_pa_def)
qed

section \<open>The title of a Reddit record\<close>

text \<open>
  Claim C9. In the Reddit script, every candidate that is new and whose two summarizer calls
  succeed is stored with the raw title of the post, whatever the store holds.
  \<open>summarizeTitle\<close> is called (its call is in the trace), but its answer \<open>t\<close> occurs neither
  in the stored row nor in the message built from that row, which starts with the raw
  title. That message is what the release step hands to the publish step whenever it
  selects the row; in particular the release that follows the releases of the records
  that were pending before it.
\<close>

theorem reddit_title_is_raw:
  assumes "chat env title_system (title_user (post_title p)) = Inr t"
    and "chat env discussion_system
           (discussion_user (if selftext p = [] then post_title p else selftext p)) = Inr s"
    and "post_id p \<notin> set (map source_id (tbl w))"
    and "distinct (map source_id (tbl w))"
  shows "(let stored = \<lparr>rowid = next_rowid (tbl w), source_id = post_id p,
                         title = post_title p, url = post_url p, summary = s, retrieved = 0\<rparr>;
              message = newspaper @ '' '' @ post_title p @ [LF, LF] @ speech_balloon @ '' '' @ s
                        @ [LF, LF] @ ''https://www.reddit.com/r/LosAngeles/comments/'' @ post_id p;
              w' = snd (post_callback env p False w);
              later = (retrieveAndPost env' ^^ length (unretrieved (tbl w))) w'
          in post_callback env p False w
               = (Running,
                  \<lparr>tbl = tbl w @ [stored],
                   trace = trace w @ [RdSummarizeTitle (post_title p),
                     RdSummarizeDiscussion (if selftext p = [] then post_title p else selftext p),
                     RdInsert (post_id p)]\<rparr>)
             \<and> (\<forall>v. select_oldest (tbl v) = Some stored \<longrightarrow>
                    retrieveAndPost env' v = mark_retrieved stored (postToBluesky env' message v))
             \<and> retrieveAndPost env' later
                 = mark_retrieved stored (postToBluesky env' message later))"
proof -
  let ?txt = "if selftext p = [] then post_title p else selftext p"
  let ?w1 = "w\<lparr>trace := trace w @ [RdSummarizeTitle (post_title p), RdSummarizeDiscussion ?txt]\<rparr>"
  let ?row = "\<lparr>rowid = next_rowid (tbl w), source_id = post_id p, title = post_title p,
                url = post_url p, summary = s, retrieved = 0\<rparr>"
  let ?msg = "newspaper @ '' '' @ post_title p @ [LF, LF] @ speech_balloon @ '' '' @ s
                @ [LF, LF] @ ''https://www.reddit.com/r/LosAngeles/comments/'' @ post_id p"
  let ?w' = "\<lparr>tbl = tbl w @ [?row], trace = trace w @ [RdSummarizeTitle (post_title p),
            RdSummarizeDiscussion ?txt, RdInsert (post_id p)]\<rparr> :: rd_world"
  let ?n = "length (unretrieved (tbl w))"
  let ?later = "(retrieveAndPost env' ^^ ?n) ?w'"
  have f: "post_id p \<notin> set (map source_id (tbl ?w1))" using assms(3) by simp
  have c: "post_callback env p False w = (Running, ?w')"
    unfolding post_callback_new [OF assms(1,2)] insert_post_fresh [OF f] by simp
  have m: "rd_message ?row = ?msg" by (simp add: rd_message_def)
  have g: "\<forall>v. select_oldest (tbl v) = Some ?row \<longrightarrow>
      retrieveAndPost env' v = mark_retrieved ?row (postToBluesky env' ?msg v)"
    by (simp add: retrieveAndPost_def m)
  have "\<forall>y\<in>set (tbl w). rowid y \<le> rowid ?row"
    using rowid_less_next [of _ "tbl w"] by (auto intro: less_imp_le)
  then have q: "unretrieved (tbl ?w') = unretrieved (tbl w) @ [?row]"
    using unretrieved_snoc [of "tbl w" ?row] by simp
  have d: "distinct (map source_id (tbl ?w'))" using assms(3,4) by simp
  have "?n \<le> length (unretrieved (tbl ?w'))" unfolding q by simp
  from release_many [OF d this, of env']
  have "unretrieved (tbl ?later) = drop ?n (unretrieved (tbl ?w'))" by simp
  then have "unretrieved (tbl ?later) = [?row]" unfolding q by simp
  then have "select_oldest (tbl ?later) = Some ?row" by (rule select_oldest_Cons)
  with g have l: "retrieveAndPost env' ?later
      = mark_retrieved ?row (postToBluesky env' ?msg ?later)" by blast
  show ?thesis
    unfolding Let_def c snd_conv using g l by simp
qed

theorem reddit_title_is_raw_witness:
  "post_callback rd_env_ok post_b False rd_pending
     = (Running,
        \<lparr>tbl = tbl rd_pending @ [\<lparr>rowid = 3, source_id = ''pb'', title = ''B'',
                         url = ''https://www.reddit.com/r/losangeles/comments/pb/b/'',
                         summary = ''fine'', retrieved = 0\<rparr>],
         trace = [RdInsert ''pa'', RdSummarizeTitle ''B'', RdSummarizeDiscussion ''B'',
                  RdInsert ''pb'']\<rparr>)
   \<and> retrieveAndPost rd_env_ok
       (retrieveAndPost rd_env_ok (snd (post_callback rd_env_ok post_b False rd_pending)))
     = mark_retrieved \<lparr>rowid = 3, source_id = ''pb'', title = ''B'',
                         url = ''https://www.reddit.com/r/losangeles/comments/pb/b/'',
                         summary = ''fine'', retrieved = 0\<rparr>
         (postToBluesky rd_env_ok
            (newspaper @ '' B'' @ [LF, LF] @ speech_balloon @ '' fine'' @ [LF, LF]
               @ ''https://www.reddit.com/r/LosAngeles/comments/pb'')
            (retrieveAndPost rd_env_ok
               (snd (post_callback rd_env_ok post_b False rd_pending))))"
    (is "?stored \<and> ?published")
proof -
  have a: "chat rd_env_ok title_system (title_user (post_title post_b)) = Inr ''snark''"
    "chat rd_env_ok discussion_system
       (discussion_user (if selftext post_b = [] then post_title post_b else selftext post_b))
       = Inr ''fine''"
    by (simp_all add: sample_defs title_system_def discussion_system_def)
  have b: "post_id post_b \<notin> set (map source_id (tbl rd_pending))"
    "distinct (map source_id (tbl rd_pending))"
    by (simp_all add: sample_defs run_defs)
  have n: "length (unretrieved (tbl rd_pending)) = 1" "next_rowid (tbl rd_pending) = 3"
    "trace rd_pending = [RdInsert ''pa'']"
    by (simp_all add: sample_defs run_defs)
  note t = reddit_title_is_raw [OF a b, of rd_env_ok, unfolded Let_def]
  have c: ?stored using conjunct1 [OF t] n by (simp add: post_b_def)
  have l: ?published using conjunct2 [OF conjunct2 [OF t]] n by (simp add: post_b_def)
  from c l show ?thesis ..
qed

section \<open>The text given to the discussion summarizer\<close>

text \<open>
  Claim C7, as stated, fails in two places. The Reddit post \<open>post_b\<close> has an empty body; the
  text passed to \<open>summarizeDiscussion\<close> is then its title, not its body. And on the Hacker
  News page where the request for child entry 72 fails, the entry is not left out: the
  failure ends the processing of story 7, which is not stored.
\<close>

theorem discussion_text_counterexample:
  "trace (snd (post_callback rd_env_ok post_b False rd_old))
     = [RdSummarizeTitle ''B'', RdSummarizeDiscussion ''B'', RdInsert ''pb'']
   \<and> selftext post_b \<noteq> ''B''
   \<and> process_story hn_env_throw 7 hn_old
     = (Inl RequestFailed, hn_old\<lparr>trace := [HnGetItem 7, HnGetItem 71, HnGetItem 72]\<rparr>)"
  by (simp add: sample_defs run_defs ingest_defs title_system_def discussion_system_def)

text \<open>
  Claim C7, amended. For every ingested candidate of the Hacker News script (a story not
  yet stored, with a list of children and a non-empty URL, whose requests all return),
  the text passed to \<open>summarizeComments\<close> is the texts of the first 25 children, in the
  order the story lists them, joined by line feeds, where a child whose request returns no
  item or an item without text contributes nothing (the loop computes \<open>discussion_texts\<close>);
  at most 25 texts enter. For every ingested candidate of the Reddit script, the text
  passed to \<open>summarizeDiscussion\<close> is the body of the post, or its title when the body is
  empty.
\<close>

theorem discussion_text_passed:
  assumes "\<not> isStoryProcessed k w" and "item_json env k = Inr (Some story)"
    and "kids story = Some ks" and "item_url story = Some u" and "u \<noteq> []"
    and "\<forall>c\<in>set (take 25 ks). \<not> isl (item_json env c)"
    and "chat env hn_system (hn_user (join [LF] (discussion_texts env (take 25 ks)))) = Inr s"
    and "chat env' title_system (title_user (post_title p)) = Inr t'"
    and "chat env' discussion_system
           (discussion_user (if selftext p = [] then post_title p else selftext p)) = Inr s'"
  shows "process_story env k w
           = saveStoryToDatabase k (item_title story) u s
               (w\<lparr>tbl := overlap env k (tbl w),
                  trace := trace w @ HnGetItem k # map HnGetItem (take 25 ks)
                    @ [HnSummarize (join [LF] (discussion_texts env (take 25 ks)))]\<rparr>)
       \<and> length (discussion_texts env (take 25 ks)) \<le> 25
       \<and> post_callback env' p False v
           = (Running,
              insert_post p s'
                (v\<lparr>trace := trace v @ [RdSummarizeTitle (post_title p),
                   RdSummarizeDiscussion
                     (if selftext p = [] then post_title p else selftext p)]\<rparr>))"
proof -
  have "length (discussion_texts env (take 25 ks)) \<le> length (take 25 ks)"
    by (rule length_discussion_texts)
  then have "length (discussion_texts env (take 25 ks)) \<le> 25" by simp
  then show ?thesis
    using process_story_new [OF assms(1-7)] post_callback_new [OF assms(8,9)] by simp
qed

theorem discussion_text_passed_witness:
  "trace (snd (process_story hn_env_page 7 hn_old))
     = [HnGetItem 7, HnGetItem 71, HnGetItem 72, HnGetItem 73, HnGetItem 74,
        HnSummarize (''great'' @ [LF] @ ''meh''), HnInsert 7]
   \<and> trace (snd (post_callback rd_env_ok post_a False rd_old))
     = [RdSummarizeTitle ''A'', RdSummarizeDiscussion ''body a'', RdInsert ''pa'']"
proof -
  let ?story = "\<lparr>item_title = ''Story 7'', item_url = Some ''http://s7'',
                  kids = Some [71, 72, 73, 74], item_text = None\<rparr>"
  have d: "discussion_texts hn_env_page (take 25 [71, 72, 73, 74]) = [''great'', ''meh'']"
    by (simp add: discussion_texts_def entry_text_def sample_defs)
  have h: "\<not> isStoryProcessed 7 hn_old" "item_json hn_env_page 7 = Inr (Some ?story)"
    "kids ?story = Some [71, 72, 73, 74]" "item_url ?story = Some ''http://s7''"
    "''http://s7'' \<noteq> []" "\<forall>c\<in>set (take 25 [71, 72, 73, 74]). \<not> isl (item_json hn_env_page c)"
    "chat hn_env_page hn_system
       (hn_user (join [LF] (discussion_texts hn_env_page (take 25 [71, 72, 73, 74])))) = Inr ''fine''"
    by (simp_all add: sample_defs isStoryProcessed_def)
  have r: "chat rd_env_ok title_system (title_user (post_title post_a)) = Inr ''snark''"
    "chat rd_env_ok discussion_system
       (discussion_user (if selftext post_a = [] then post_title post_a else selftext post_a))
       = Inr ''fine''"
    by (simp_all add: sample_defs title_system_def discussion_system_def)
  show ?thesis
    using discussion_text_passed [OF h r, of rd_old] d
    by (simp add: sample_defs run_defs)
qed

section \<open>Ingesting a candidate twice\<close>

text \<open>
  Claim C2. The claim is that ingesting an identifier twice, within one tick or across
  ticks, leaves one record and that the second attempt performs no enrichment and no
  insert. The Hacker News script does so: its loop awaits each candidate, so when story 7
  is listed twice the second attempt finds the record and does nothing. The Reddit script
  does not, although it selects before it enriches: every select of a listing is answered
  before any insert is issued. When post \<^verbatim>\<open>pa\<close> is listed twice, both callbacks call both
  summarizers and both issue the insert, both when the answers arrive in turn and when
  the callback listed second is answered first; the primary key rejects the insert that
  comes second, so one record is stored. The same happens across
  two ticks that overlap, when the second tick lists the post while the callback of the
  first still awaits a summarizer.
\<close>

theorem reddit_enriches_duplicate_twice:
  "fst (ingest_posts rd_env_dup rd_old) = Inr Running
   \<and> count_list (trace (snd (ingest_posts rd_env_dup rd_old))) (RdSummarizeTitle ''A'') = 2
   \<and> count_list (trace (snd (ingest_posts rd_env_dup rd_old)))
        (RdSummarizeDiscussion ''body a'') = 2
   \<and> count_list (trace (snd (ingest_posts rd_env_dup rd_old))) (RdInsert ''pa'') = 2
   \<and> count_list (map source_id (tbl (snd (ingest_posts rd_env_dup rd_old)))) ''pa'' = 1
   \<and> count_list (trace (snd (ingest_posts rd_env_dup_swap rd_old))) (RdSummarizeTitle ''A'') = 2
   \<and> count_list (trace (snd (ingest_posts rd_env_dup_swap rd_old)))
        (RdSummarizeDiscussion ''body a'') = 2
   \<and> count_list (trace (snd (ingest_posts rd_env_dup_swap rd_old))) (RdInsert ''pa'') = 2
   \<and> count_list (map source_id (tbl (snd (ingest_posts rd_env_dup_swap rd_old)))) ''pa'' = 1
   \<and> fst rd_overlap = Running
   \<and> trace (snd (snd rd_overlap))
     = [RdGetPosts, RdSummarizeTitle ''A'', RdGetPosts, RdSummarizeTitle ''A'',
        RdSummarizeDiscussion ''body a'', RdSummarizeDiscussion ''body a'',
        RdInsert ''pa'', RdInsert ''pa'', RdConsoleError SQLITE_CONSTRAINT]
   \<and> map source_id (tbl (snd (snd rd_overlap))) = [''p0'', ''pa'']
   \<and> story_loop hn_env_page [7, 7] hn_old
     = (Inr (),
        \<lparr>tbl = tbl hn_old @ [\<lparr>rowid = 2, source_id = 7, title = ''Story 7'',
             url = ''http://s7'', summary = ''fine'', retrieved = 0\<rparr>],
         trace = [HnGetItem 7, HnGetItem 71, HnGetItem 72, HnGetItem 73, HnGetItem 74,
                  HnSummarize (''great'' @ [LF] @ ''meh''), HnInsert 7]\<rparr>)"
proof -
  have e: "map source_id (tbl rd_old) = [''p0'']" by (simp add: sample_defs)
  show ?thesis
    unfolding run_dup run_dup_swap run_story_twice using run_overlap e by simp
qed

section \<open>A uniqueness violation on persist\<close>

text \<open>
  Claim C5. The claim is that a uniqueness violation on persist is swallowed, the
  remaining candidates are ingested and no error leaves the tick. The Reddit script does
  so: with post \<^verbatim>\<open>pa\<close> listed twice, the second insert is rejected, the rejection is
  logged, post \<^verbatim>\<open>pb\<close> is ingested and the process goes on, both when the answers arrive
  in turn and when the callback listed second is answered first. The Hacker News script does not:
  when another run stores story 7 between this run's check and its insert,
  \<open>saveStoryToDatabase\<close> rejects, nothing catches the rejection, and \<open>main\<close> ends with the
  error; story 9, which the same page ingests when there is no race, is not fetched, and
  the release step does not run.
\<close>

theorem unique_violation_ends_hn_tick:
  "fst (hn_main hn_env_race hn_old) = Inl SQLITE_CONSTRAINT
   \<and> trace (snd (hn_main hn_env_race hn_old))
     = [HnGetTopStories, HnGetItem 7, HnGetItem 71, HnGetItem 72, HnGetItem 73, HnGetItem 74,
        HnSummarize (''great'' @ [LF] @ ''meh''), HnInsert 7]
   \<and> map source_id (tbl (snd (hn_main hn_env_race hn_old))) = [90, 7]
   \<and> fst (hn_main hn_env_page hn_old) = Inr ()
   \<and> map source_id (tbl (snd (hn_main hn_env_page hn_old))) = [90, 7, 9]
   \<and> fst (processPosts rd_env_dup rd_old)
     = Inr [Selected post_a False, Selected post_a False, Selected post_b False]
   \<and> fst (ingest_posts rd_env_dup_swap rd_old) = Inr Running
   \<and> trace (snd (ingest_posts rd_env_dup_swap rd_old))
     = [RdGetPosts, RdSummarizeTitle ''A'', RdSummarizeTitle ''A'', RdSummarizeTitle ''B'',
        RdSummarizeDiscussion ''body a'', RdInsert ''pa'',
        RdSummarizeDiscussion ''body a'', RdInsert ''pa'', RdConsoleError SQLITE_CONSTRAINT,
        RdSummarizeDiscussion ''B'', RdInsert ''pb'']
   \<and> map source_id (tbl (snd (ingest_posts rd_env_dup_swap rd_old))) = [''p0'', ''pa'', ''pb'']
   \<and> fst (ingest_posts rd_env_dup rd_old) = Inr Running
   \<and> trace (snd (ingest_posts rd_env_dup rd_old))
     = [RdGetPosts, RdSummarizeTitle ''A'', RdSummarizeTitle ''A'', RdSummarizeTitle ''B'',
        RdSummarizeDiscussion ''body a'', RdSummarizeDiscussion ''body a'',
        RdSummarizeDiscussion ''B'', RdInsert ''pa'', RdInsert ''pa'', RdInsert ''pb'',
        RdConsoleError SQLITE_CONSTRAINT]
   \<and> map source_id (tbl (snd (ingest_posts rd_env_dup rd_old))) = [''p0'', ''pa'', ''pb'']"
proof -
  have e: "map source_id (tbl rd_old) = [''p0'']" by (simp add: sample_defs)
  have p: "fst (processPosts rd_env_dup rd_old)
      = Inr [Selected post_a False, Selected post_a False, Selected post_b False]"
    by (simp add: sample_defs processPosts_def fetchRecentPosts_def)
  show ?thesis
    unfolding run_dup run_dup_swap using run_race p e by simp
qed

section \<open>A hard failure on one candidate\<close>

text \<open>
  Claim C6. The claim is that a hard failure on candidate \<open>i\<close> ends the ingestion of the
  tick, keeps the records persisted before it and does not crash the process. Both
  scripts keep the records, and neither keeps the process. In the Reddit script the
  summarizer fails on the title of post \<^verbatim>\<open>pa\<close>: the \<^verbatim>\<open>await\<close> in the callback throws,
  the callback's promise is rejected, nothing handles it and the process ends; post
  \<^verbatim>\<open>pb\<close> is not stored when the answers arrive in turn, and is stored before the end
  when the failure arrives after its own answers. In the Hacker News script the request for child 72
  of story 7 fails after story 9 has been stored: \<open>main\<close> rejects, the script awaits it
  with no handler, and the process ends before the cron job is started.
\<close>

theorem failed_call_ends_process:
  "ingest_posts rd_env_fail rd_old
     = (Inr (Exited RequestFailed),
        rd_old\<lparr>trace := [RdGetPosts, RdSummarizeTitle ''A'', RdSummarizeTitle ''B'',
                          RdUnhandledRejection RequestFailed]\<rparr>)
   \<and> fst (ingest_posts rd_env_fail_late rd_old) = Inr (Exited RequestFailed)
   \<and> trace (snd (ingest_posts rd_env_fail_late rd_old))
     = [RdGetPosts, RdSummarizeTitle ''A'', RdSummarizeTitle ''B'', RdSummarizeDiscussion ''B'',
        RdInsert ''pb'', RdUnhandledRejection RequestFailed]
   \<and> map source_id (tbl (snd (ingest_posts rd_env_fail_late rd_old))) = [''p0'', ''pb'']
   \<and> fst (hn_startup hn_env_throw2 hn_old) = Exited RequestFailed
   \<and> trace (snd (hn_startup hn_env_throw2 hn_old))
     = [HnGetTopStories, HnGetItem 9, HnSummarize [], HnInsert 9,
        HnGetItem 7, HnGetItem 71, HnGetItem 72]
   \<and> map source_id (tbl (snd (hn_startup hn_env_throw2 hn_old))) = [90, 9]"
  using run_fail run_fail_late run_throw by simp

end
